theory Spec2Isabelle
  imports Main "HOL-Library.Word" "HOL-Library.Multiset"
begin

unbundle bit_operations_syntax

section \<open>Python strings\<close>

text \<open>
  A Python \<open>str\<close> is a sequence of Unicode code points, and \<open>len\<close>, slicing,
  \<open>split\<close>, \<open>strip\<close> and \<open>replace\<close> all count code points. The source works on
  Chinese text, so a string is modelled as the list of its code points; \<open>ustr\<close>
  embeds an ASCII literal.
\<close>

type_synonym pystr = "nat list"

definition ustr :: "string \<Rightarrow> pystr" where
  "ustr s = map of_char s"

text \<open>
  \<open>str.isspace\<close> for one code point: the characters \<open>str.strip()\<close> removes
  (CPython's \<open>_PyUnicode_IsWhitespace\<close>).
\<close>

definition isspace :: "nat \<Rightarrow> bool" where
  "isspace c = ((0x09 \<le> c \<and> c \<le> 0x0D) \<or> (0x1C \<le> c \<and> c \<le> 0x20) \<or> c = 0x85 \<or> c = 0xA0
     \<or> c = 0x1680 \<or> (0x2000 \<le> c \<and> c \<le> 0x200A) \<or> c = 0x2028 \<or> c = 0x2029
     \<or> c = 0x202F \<or> c = 0x205F \<or> c = 0x3000)"

definition lstrip :: "pystr \<Rightarrow> pystr" where
  "lstrip s = dropWhile isspace s"

definition rstrip :: "pystr \<Rightarrow> pystr" where
  "rstrip s = rev (dropWhile isspace (rev s))"

definition strip :: "pystr \<Rightarrow> pystr" where
  "strip s = rstrip (lstrip s)"

text \<open>
  \<open>s.split(sep)\<close> for a non-empty separator: the occurrences of \<open>sep\<close> are found
  from the left and do not overlap. Python raises \<open>ValueError\<close> on an empty
  separator; the source only ever passes the literal \<open>"|||"\<close>, and the model returns
  the string in one piece there.
\<close>

function split :: "pystr \<Rightarrow> pystr \<Rightarrow> pystr list" where
  "split sep [] = [[]]"
| "split sep (c # s) =
     (if sep \<noteq> [] \<and> take (length sep) (c # s) = sep
      then [] # split sep (drop (length sep) (c # s))
      else (case split sep s of
              [] \<Rightarrow> [[c]]
            | p # ps \<Rightarrow> (c # p) # ps))"
  by pat_completeness auto
termination
  by (relation "measure (\<lambda>(sep, s). length s)") auto

text \<open>
  \<open>s.replace(old, new)\<close> for a non-empty \<open>old\<close>: every occurrence, from the left,
  without overlap.
\<close>

function replace :: "pystr \<Rightarrow> pystr \<Rightarrow> pystr \<Rightarrow> pystr" where
  "replace old new [] = []"
| "replace old new (c # s) =
     (if old \<noteq> [] \<and> take (length old) (c # s) = old
      then new @ replace old new (drop (length old) (c # s))
      else c # replace old new s)"
  by pat_completeness auto
termination
  by (relation "measure (\<lambda>(old, new, s). length s)") auto

section \<open>\<open>str.encode()\<close> and \<open>hashlib.md5\<close>\<close>

text \<open>An exception carries its message, which is what \<open>str(e)\<close> gives.\<close>

datatype exn =
    UnicodeEncodeError pystr
  | ValueError pystr
  | Exception pystr

fun str_exn :: "exn \<Rightarrow> pystr" where
  "str_exn (UnicodeEncodeError msg) = msg"
| "str_exn (ValueError msg) = msg"
| "str_exn (Exception msg) = msg"

type_synonym byte = "8 word"
type_synonym u32 = "32 word"

text \<open>
  \<open>str.encode()\<close> is UTF-8 in strict mode: a surrogate code point raises
  \<open>UnicodeEncodeError\<close>. (Python has no code point above \<open>0x10FFFF\<close>; the model
  refuses those as well.)
\<close>

definition encodable :: "nat \<Rightarrow> bool" where
  "encodable c = (c < 0xD800 \<or> (0xDFFF < c \<and> c < 0x110000))"

text \<open>\<open>str(n)\<close> for a natural number, and \<open>k\<close> lower-case hexadecimal digits of \<open>c\<close>.\<close>

function decimal :: "nat \<Rightarrow> pystr" where
  "decimal n = (if n < 10 then [48 + n] else decimal (n div 10) @ [48 + n mod 10])"
  by pat_completeness auto
termination
  by (relation "measure id") auto

declare decimal.simps [simp del]

definition hexdigit :: "nat \<Rightarrow> nat" where
  "hexdigit d = (if d < 10 then 48 + d else 87 + d)"

definition hexn :: "nat \<Rightarrow> nat \<Rightarrow> pystr" where
  "hexn k c = map (\<lambda>i. hexdigit (c div 16 ^ (k - 1 - i) mod 16)) [0..<k]"

text \<open>
  The message of the \<open>UnicodeEncodeError\<close> that encoding \<open>s\<close> raises, as CPython
  builds it: the error spans the first run of surrogates; one character is shown escaped
  with its position, a longer run by the positions of its first and last character. The
  apostrophe is the code point 39 and the backslash 92.
\<close>

definition str_encode_error :: "pystr \<Rightarrow> pystr" where
  "str_encode_error s =
     (let start = length (takeWhile encodable s);
          n = length (takeWhile (\<lambda>c. \<not> encodable c) (drop start s));
          bad = s ! start
      in [39] @ ustr ''utf-8'' @ [39] @ ustr '' codec can'' @ [39] @ ustr ''t encode '' @
         (if n = 1 then
            ustr ''character '' @ [39, 92] @
            (if bad \<le> 0xFF then ustr ''x'' @ hexn 2 bad
             else if bad \<le> 0xFFFF then ustr ''u'' @ hexn 4 bad
             else ustr ''U'' @ hexn 8 bad) @
            [39] @ ustr '' in position '' @ decimal start
          else ustr ''characters in position '' @ decimal start @ ustr ''-''
                 @ decimal (start + n - 1))
         @ ustr '': surrogates not allowed'')"

definition utf8 :: "nat \<Rightarrow> byte list" where
  "utf8 c =
     (if c < 0x80 then [of_nat c]
      else if c < 0x800 then [of_nat (0xC0 + c div 0x40), of_nat (0x80 + c mod 0x40)]
      else if c < 0x10000 then
        [of_nat (0xE0 + c div 0x1000), of_nat (0x80 + c div 0x40 mod 0x40),
         of_nat (0x80 + c mod 0x40)]
      else
        [of_nat (0xF0 + c div 0x40000), of_nat (0x80 + c div 0x1000 mod 0x40),
         of_nat (0x80 + c div 0x40 mod 0x40), of_nat (0x80 + c mod 0x40)])"

definition encode :: "pystr \<Rightarrow> exn + byte list" where
  "encode s =
     (if list_all encodable s then Inr (concat (map utf8 s))
      else Inl (UnicodeEncodeError (str_encode_error s)))"

text \<open>MD5 as RFC 1321 defines it, which is what \<open>hashlib.md5\<close> computes.\<close>

definition md5_K :: "u32 list" where
  "md5_K =
    [0xd76aa478, 0xe8c7b756, 0x242070db, 0xc1bdceee, 0xf57c0faf, 0x4787c62a, 0xa8304613, 0xfd469501,
     0x698098d8, 0x8b44f7af, 0xffff5bb1, 0x895cd7be, 0x6b901122, 0xfd987193, 0xa679438e, 0x49b40821,
     0xf61e2562, 0xc040b340, 0x265e5a51, 0xe9b6c7aa, 0xd62f105d, 0x02441453, 0xd8a1e681, 0xe7d3fbc8,
     0x21e1cde6, 0xc33707d6, 0xf4d50d87, 0x455a14ed, 0xa9e3e905, 0xfcefa3f8, 0x676f02d9, 0x8d2a4c8a,
     0xfffa3942, 0x8771f681, 0x6d9d6122, 0xfde5380c, 0xa4beea44, 0x4bdecfa9, 0xf6bb4b60, 0xbebfbc70,
     0x289b7ec6, 0xeaa127fa, 0xd4ef3085, 0x04881d05, 0xd9d4d039, 0xe6db99e5, 0x1fa27cf8, 0xc4ac5665,
     0xf4292244, 0x432aff97, 0xab9423a7, 0xfc93a039, 0x655b59c3, 0x8f0ccc92, 0xffeff47d, 0x85845dd1,
     0x6fa87e4f, 0xfe2ce6e0, 0xa3014314, 0x4e0811a1, 0xf7537e82, 0xbd3af235, 0x2ad7d2bb, 0xeb86d391]"

definition md5_S :: "nat list" where
  "md5_S =
    [7, 12, 17, 22, 7, 12, 17, 22, 7, 12, 17, 22, 7, 12, 17, 22,
     5, 9, 14, 20, 5, 9, 14, 20, 5, 9, 14, 20, 5, 9, 14, 20,
     4, 11, 16, 23, 4, 11, 16, 23, 4, 11, 16, 23, 4, 11, 16, 23,
     6, 10, 15, 21, 6, 10, 15, 21, 6, 10, 15, 21, 6, 10, 15, 21]"

definition rotl32 :: "nat \<Rightarrow> u32 \<Rightarrow> u32" where
  "rotl32 n x = push_bit n x OR drop_bit (32 - n) x"

definition md5_pad :: "byte list \<Rightarrow> byte list" where
  "md5_pad msg =
     (let n = length msg
      in msg @ [0x80] @ replicate ((119 - n mod 64) mod 64) 0
           @ map (\<lambda>i. ucast (drop_bit (8 * i) (of_nat (8 * n) :: 64 word))) [0..<8])"

fun le32 :: "byte list \<Rightarrow> u32" where
  "le32 [] = 0"
| "le32 (b # bs) = ucast b OR push_bit 8 (le32 bs)"

fun chunks :: "nat \<Rightarrow> 'a list \<Rightarrow> 'a list list" where
  "chunks n [] = []"
| "chunks n (x # xs) =
     (if n = 0 then [x # xs] else take n (x # xs) # chunks n (drop n (x # xs)))"

definition md5_step :: "u32 list \<Rightarrow> u32 \<times> u32 \<times> u32 \<times> u32 \<Rightarrow> nat \<Rightarrow> u32 \<times> u32 \<times> u32 \<times> u32" where
  "md5_step M st i =
     (case st of (A, B, C, D) \<Rightarrow>
        (let (F, g) =
               (if i < 16 then ((B AND C) OR (NOT B AND D), i)
                else if i < 32 then ((D AND B) OR (NOT D AND C), (5 * i + 1) mod 16)
                else if i < 48 then (B XOR C XOR D, (3 * i + 5) mod 16)
                else (C XOR (B OR NOT D), (7 * i) mod 16));
             F' = F + A + md5_K ! i + M ! g
         in (D, B + rotl32 (md5_S ! i) F', B, C)))"

definition md5_block :: "u32 \<times> u32 \<times> u32 \<times> u32 \<Rightarrow> byte list \<Rightarrow> u32 \<times> u32 \<times> u32 \<times> u32" where
  "md5_block h block =
     (case h of (a0, b0, c0, d0) \<Rightarrow>
        (case foldl (md5_step (map le32 (chunks 4 block))) h [0..<64] of
           (A, B, C, D) \<Rightarrow> (a0 + A, b0 + B, c0 + C, d0 + D)))"

definition bytes_le32 :: "u32 \<Rightarrow> byte list" where
  "bytes_le32 w = map (\<lambda>i. ucast (drop_bit (8 * i) w)) [0..<4]"

definition md5 :: "byte list \<Rightarrow> byte list" where
  "md5 msg =
     (case foldl md5_block (0x67452301, 0xefcdab89, 0x98badcfe, 0x10325476) (chunks 64 (md5_pad msg)) of
        (a, b, c, d) \<Rightarrow> bytes_le32 a @ bytes_le32 b @ bytes_le32 c @ bytes_le32 d)"

definition hexdigest :: "byte list \<Rightarrow> pystr" where
  "hexdigest bs = concat (map (\<lambda>b. [hexdigit (unat b div 16), hexdigit (unat b mod 16)]) bs)"

section \<open>Literals of the source\<close>

text \<open>The string literals of \<open>app.py\<close>; the Chinese ones are given by their code points.\<close>

definition SEP :: pystr where
  "SEP = ustr ''|||''"

definition CACHE_PREFIX :: pystr where
  "CACHE_PREFIX = ustr ''ai_result_v17_aliyun:''"

definition NO_CACHE_MSG :: pystr where
  "NO_CACHE_MSG = ustr ''Redis Error (No Cache)''"

definition DEFAULT_TITLE :: pystr where
  \<comment> \<open>the default of \<open>entry.get("title", ...)\<close>, line 151\<close>
  "DEFAULT_TITLE = [0x65E0, 0x6807, 0x9898]"

definition KEY_MISSING_MSG :: pystr where
  \<comment> \<open>the message of the \<open>ValueError\<close> of line 79\<close>
  "KEY_MISSING_MSG = ustr ''ALIYUN_API_KEY '' @ [0x73AF, 0x5883, 0x53D8, 0x91CF, 0x672A, 0x8BBE, 0x7F6E, 0xFF01]"

definition AI_ERROR_MARKER :: pystr where
  \<comment> \<open>the second component of line 109\<close>
  "AI_ERROR_MARKER = [0x26A0, 0xFE0F] @ ustr '' AI'' @ [0x670D, 0x52A1, 0x5F02, 0x5E38]"

definition error_detail :: "pystr \<Rightarrow> pystr \<Rightarrow> pystr" where
  \<comment> \<open>the f-string of line 110, \<open>detail\<close> being \<open>str(e)\<close>\<close>
  "error_detail detail content =
     [0x9519, 0x8BEF, 0x8BE6, 0x60C5] @ ustr '': '' @ detail
       @ ustr ''<br><br>'' @ [0x539F, 0x59CB, 0x5185, 0x5BB9] @ ustr '':<br>'' @ content"

definition UNPACK_MSG :: pystr where
  \<comment> \<open>what Python says when a 3-tuple is unpacked into two names\<close>
  "UNPACK_MSG = ustr ''too many values to unpack (expected 2)''"

section \<open>The cache and the transformation service\<close>

text \<open>
  The Redis server holds, under a key, a value and the time-to-live it was stored with.
  The global \<open>cache\<close> is \<open>None\<close> when the ping at start-up failed (lines 27 to 33)
  and a client of the server otherwise; once connected, \<open>get\<close> and \<open>setex\<close> are
  taken to reach the server, time does not pass between the calls of one request, and
  what the program prints is printed.
\<close>

type_synonym redis = "pystr \<rightharpoonup> pystr \<times> nat"

definition redis_get :: "redis \<Rightarrow> pystr \<Rightarrow> pystr option" where
  "redis_get db key = map_option fst (db key)"

definition redis_setex :: "redis \<Rightarrow> pystr \<Rightarrow> nat \<Rightarrow> pystr \<Rightarrow> redis" where
  "redis_setex db key ttl v = db(key \<mapsto> (v, ttl))"

text \<open>
  \<open>cache.setex\<close> as the program calls it: the client encodes the value as UTF-8 before
  it sends the command, so a value with a surrogate raises \<open>UnicodeEncodeError\<close> and
  nothing is stored. (The keys of this program are ASCII: a fixed prefix and hexadecimal
  digits.)
\<close>

definition cache_setex :: "redis \<Rightarrow> pystr \<Rightarrow> nat \<Rightarrow> pystr \<Rightarrow> exn + redis" where
  "cache_setex db key ttl v =
     (case encode v of
        Inl e \<Rightarrow> Inl e
      | Inr bytes \<Rightarrow> Inr (redis_setex db key ttl v))"

text \<open>
  The state a request changes: the cache, and the log of the requests sent to the
  external service, each with the title and content its prompt was built from.
\<close>

record state =
  cache :: "redis option"
  ai_calls :: "(pystr \<times> pystr) list"

text \<open>
  What the process is configured with and talks to. \<open>completions env n title content\<close>
  is the outcome of lines 81 to 92 up to \<open>message.content\<close> for the request number
  \<open>n\<close> (counted from 0) with the prompt of that title and content: \<open>Inr\<close> the
  content of the first choice, or \<open>Inl (str e)\<close> for whatever exception \<open>e\<close> the
  client raised (network failure, timeout, a response without choices or content).
\<close>

record env =
  ALIYUN_API_KEY :: "pystr option"
  completions :: "nat \<Rightarrow> pystr \<Rightarrow> pystr \<Rightarrow> pystr + pystr"

section \<open>\<open>get_ai_processing\<close>\<close>

text \<open>The function returns a 2-tuple on two of its paths and a 3-tuple on the other two.\<close>

datatype ai_return =
    Tuple2 pystr pystr
  | Tuple3 pystr pystr pystr

definition cache_key :: "pystr \<Rightarrow> pystr \<Rightarrow> exn + pystr" where
  \<comment> \<open>lines 44 and 45\<close>
  "cache_key title content =
     (case encode (title @ take 200 content) of
        Inl e \<Rightarrow> Inl e
      | Inr bytes \<Rightarrow> Inr (CACHE_PREFIX @ hexdigest (md5 bytes)))"

definition cached_result :: "pystr option \<Rightarrow> (pystr \<times> pystr) option" where
  \<comment> \<open>lines 48 to 54: \<open>Some\<close> is the early return of line 52\<close>
  "cached_result cached =
     (case cached of
        None \<Rightarrow> None
      | Some v \<Rightarrow>
          if v \<noteq> [] then
            (let parts = split SEP v
             in if length parts = 2 then Some (parts ! 0, parts ! 1) else None)
          else None)"

definition ai_request :: "env \<Rightarrow> state \<Rightarrow> pystr \<Rightarrow> pystr \<Rightarrow> (pystr + pystr) \<times> state" where
  \<comment> \<open>lines 78 to 92 before \<open>.strip()\<close>: \<open>Inl (str e)\<close> when an exception is raised\<close>
  "ai_request env st title content =
     (case ALIYUN_API_KEY env of
        None \<Rightarrow> (Inl KEY_MISSING_MSG, st)
      | Some k \<Rightarrow>
          if k = [] then (Inl KEY_MISSING_MSG, st)
          else (completions env (length (ai_calls st)) title content,
                st\<lparr>ai_calls := ai_calls st @ [(title, content)]\<rparr>))"

definition clean_response :: "pystr \<Rightarrow> pystr" where
  \<comment> \<open>lines 92 and 95: \<open>.strip()\<close>, then the code-fence markers are removed\<close>
  "clean_response text = replace (ustr ''```'') [] (replace (ustr ''```html'') [] (strip text))"

definition ai_transform ::
    "env \<Rightarrow> state \<Rightarrow> redis \<Rightarrow> pystr \<Rightarrow> pystr \<Rightarrow> pystr \<Rightarrow> ai_return \<times> state" where
  \<comment> \<open>lines 56 to 111, the transform step: the \<open>try\<close> block and its handler, which
      also catches what \<open>cache.setex\<close> raises (line 102)\<close>
  "ai_transform env st db key title content =
     (case ai_request env st title content of
        (Inl detail, st') \<Rightarrow>
          (Tuple3 title AI_ERROR_MARKER (error_detail detail content), st')
      | (Inr text, st') \<Rightarrow>
          (let result = clean_response text;
               parts = split SEP result;
               cn_title = (if length parts > 0 then strip (parts ! 0) else title);
               cn_content = (if length parts > 1 then strip (parts ! 1) else content)
           in case cache_setex db key 604800 (cn_title @ SEP @ cn_content) of
                Inl e \<Rightarrow>
                  (Tuple3 title AI_ERROR_MARKER (error_detail (str_exn e) content), st')
              | Inr db' \<Rightarrow>
                  (Tuple2 cn_title cn_content, st'\<lparr>cache := Some db'\<rparr>)))"

definition get_ai_processing ::
    "env \<Rightarrow> state \<Rightarrow> pystr \<Rightarrow> pystr \<Rightarrow> (exn + ai_return) \<times> state" where
  "get_ai_processing env st title content =
     (case cache st of
        None \<Rightarrow> (Inr (Tuple3 title NO_CACHE_MSG content), st)
      | Some db \<Rightarrow>
          (case cache_key title content of
             Inl e \<Rightarrow> (Inl e, st)
           | Inr key \<Rightarrow>
               (case cached_result (redis_get db key) of
                  Some (t, c) \<Rightarrow> (Inr (Tuple2 t c), st)
                | None \<Rightarrow>
                    (case ai_transform env st db key title content of
                       (r, st') \<Rightarrow> (Inr r, st')))))"

section \<open>\<open>process_single_entry\<close>\<close>

text \<open>
  A feed entry is a dictionary read with \<open>get\<close>: every field may be absent. The result
  is the dictionary of lines 162 to 168. \<open>extract_first_image\<close> is left out: it is a
  pure regular-expression search whose value the result never uses.
\<close>

record entry =
  entry_title :: "pystr option"
  entry_link :: "pystr option"
  entry_description :: "pystr option"
  entry_summary :: "pystr option"
  entry_id :: "pystr option"

record processed =
  res_index :: nat
  res_cn_title :: pystr
  res_link :: pystr
  res_cn_content :: pystr
  res_id :: pystr

definition truthy :: "pystr option \<Rightarrow> bool" where
  "truthy v = (case v of None \<Rightarrow> False | Some s \<Rightarrow> s \<noteq> [])"

definition get_title :: "entry \<Rightarrow> pystr" where
  \<comment> \<open>line 151\<close>
  "get_title entry = (case entry_title entry of None \<Rightarrow> DEFAULT_TITLE | Some t \<Rightarrow> t)"

definition get_link :: "entry \<Rightarrow> pystr" where
  \<comment> \<open>line 152\<close>
  "get_link entry = (case entry_link entry of None \<Rightarrow> [] | Some l \<Rightarrow> l)"

definition get_raw_content :: "entry \<Rightarrow> pystr" where
  \<comment> \<open>line 154: \<open>description or summary or ""\<close>\<close>
  "get_raw_content entry =
     (if truthy (entry_description entry) then the (entry_description entry)
      else if truthy (entry_summary entry) then the (entry_summary entry)
      else [])"

definition get_id :: "entry \<Rightarrow> pystr" where
  \<comment> \<open>line 167: \<open>entry.get("id", link)\<close>\<close>
  "get_id entry = (case entry_id entry of None \<Rightarrow> get_link entry | Some i \<Rightarrow> i)"

definition process_single_entry ::
    "env \<Rightarrow> state \<Rightarrow> nat \<times> entry \<Rightarrow> (exn + processed) \<times> state" where
  "process_single_entry env st args =
     (case args of (index, entry) \<Rightarrow>
        (case get_ai_processing env st (get_title entry) (get_raw_content entry) of
           (Inl e, st') \<Rightarrow> (Inl e, st')
         | (Inr (Tuple3 a b c), st') \<Rightarrow> (Inl (ValueError UNPACK_MSG), st')
         | (Inr (Tuple2 cn_title cn_content), st') \<Rightarrow>
             (Inr \<lparr>res_index = index, res_cn_title = cn_title, res_link = get_link entry,
                   res_cn_content = cn_content, res_id = get_id entry\<rparr>, st')))"

section \<open>The dispatcher of \<open>proxy_feed\<close>\<close>

text \<open>
  Lines 205 to 224. The pool runs the tasks on five threads; what the loop over
  \<open>as_completed\<close> sees is the tasks' outcomes in the order they finish. The model
  takes that order as the argument \<open>order\<close> (the positions of the tasks, each once)
  and runs each task to its end before the next one of the order starts. What is proved
  about the order of the results uses of a task only that its result carries the index
  and the entry it was submitted with, so it does not depend on how the tasks interleave.
\<close>

fun run_tasks :: "env \<Rightarrow> state \<Rightarrow> (nat \<times> entry) list \<Rightarrow> (exn + processed) list \<times> state" where
  "run_tasks env st [] = ([], st)"
| "run_tasks env st (task # rest) =
     (case process_single_entry env st task of
        (out, st') \<Rightarrow>
          (case run_tasks env st' rest of
             (outs, st'') \<Rightarrow> (out # outs, st'')))"

fun as_completed_loop :: "(exn + processed) list \<Rightarrow> processed list \<Rightarrow> processed list" where
  \<comment> \<open>lines 216 to 221: a result is appended, an exception is printed and dropped\<close>
  "as_completed_loop [] processed_results = processed_results"
| "as_completed_loop (Inr data # futures) processed_results =
     as_completed_loop futures (processed_results @ [data])"
| "as_completed_loop (Inl exc # futures) processed_results =
     as_completed_loop futures processed_results"

definition reassemble :: "(exn + processed) list \<Rightarrow> processed list" where
  \<comment> \<open>the loop, then the sort of line 224\<close>
  "reassemble futures = sort_key res_index (as_completed_loop futures [])"

definition proxy_feed :: "env \<Rightarrow> state \<Rightarrow> entry list \<Rightarrow> nat list \<Rightarrow> processed list \<times> state" where
  "proxy_feed env st target_entries order =
     (let tasks = enumerate 0 target_entries
      in case run_tasks env st (map (\<lambda>k. tasks ! k) order) of
           (futures, st') \<Rightarrow> (reassemble futures, st'))"

section \<open>Notions the statements use\<close>

text \<open>Python's \<open>sep in s\<close>: \<open>sep\<close> occurs in \<open>s\<close> as a contiguous piece.\<close>

fun contains :: "pystr \<Rightarrow> pystr \<Rightarrow> bool" where
  "contains sep [] = (sep = [])"
| "contains sep (c # s) = (take (length sep) (c # s) = sep \<or> contains sep s)"

text \<open>A string with no whitespace at either end.\<close>

definition trimmed :: "pystr \<Rightarrow> bool" where
  "trimmed s = (s = [] \<or> (\<not> isspace (hd s) \<and> \<not> isspace (last s)))"

text \<open>
  Reading UTF-8 back: the first byte of a character tells how many bytes it has, and
  the bytes give its code point.
\<close>

function utf8_decode :: "byte list \<Rightarrow> pystr" where
  "utf8_decode [] = []"
| "utf8_decode (b # bs) =
     (if unat b < 0x80 then unat b # utf8_decode bs
      else if unat b < 0xE0 then
        ((unat b - 0xC0) * 0x40 + (unat (bs ! 0) - 0x80)) # utf8_decode (drop 1 bs)
      else if unat b < 0xF0 then
        ((unat b - 0xE0) * 0x1000 + (unat (bs ! 0) - 0x80) * 0x40 + (unat (bs ! 1) - 0x80))
          # utf8_decode (drop 2 bs)
      else
        ((unat b - 0xF0) * 0x40000 + (unat (bs ! 0) - 0x80) * 0x1000
           + (unat (bs ! 1) - 0x80) * 0x40 + (unat (bs ! 2) - 0x80))
          # utf8_decode (drop 3 bs))"
  by pat_completeness auto
termination
  by (relation "measure length") auto

text \<open>The state after \<open>n\<close> requests for one entry, one after the other.\<close>

fun repeat_request :: "env \<Rightarrow> state \<Rightarrow> pystr \<Rightarrow> pystr \<Rightarrow> nat \<Rightarrow> state" where
  "repeat_request env st title content 0 = st"
| "repeat_request env st title content (Suc n) =
     snd (get_ai_processing env (repeat_request env st title content n) title content)"

text \<open>
  The outcome of the task of index \<open>i\<close> in the run of a batch whose tasks complete in
  the order \<open>order\<close>.
\<close>

definition task_outcome :: "env \<Rightarrow> state \<Rightarrow> entry list \<Rightarrow> nat list \<Rightarrow> nat \<Rightarrow> exn + processed" where
  "task_outcome env st entries order i =
     the (map_of (zip order (fst (run_tasks env st (map (\<lambda>k. enumerate 0 entries ! k) order)))) i)"

text \<open>The results among a list of task outcomes, in the order of the list.\<close>

fun results_of :: "(exn + processed) list \<Rightarrow> processed list" where
  "results_of [] = []"
| "results_of (Inr data # futures) = data # results_of futures"
| "results_of (Inl exc # futures) = results_of futures"

subsection \<open>Example inputs\<close>

definition ex_env_ok :: env where
  \<comment> \<open>a configured key and a service that answers in the two-part format\<close>
  "ex_env_ok = \<lparr>ALIYUN_API_KEY = Some (ustr ''sk-1''),
                 completions = (\<lambda>n title content. Inr (ustr '' ```html T2 ||| <p>x</p> ``` ''))\<rparr>"

definition ex_env_plain :: env where
  \<comment> \<open>a service whose answer has no delimiter\<close>
  "ex_env_plain = \<lparr>ALIYUN_API_KEY = Some (ustr ''sk-1''),
                    completions = (\<lambda>n title content. Inr (ustr ''hello''))\<rparr>"

definition ex_env_down :: env where
  \<comment> \<open>a service that times out on every request\<close>
  "ex_env_down = \<lparr>ALIYUN_API_KEY = Some (ustr ''sk-1''),
                   completions = (\<lambda>n title content. Inl (ustr ''Request timed out.''))\<rparr>"

definition ex_env_flaky :: env where
  \<comment> \<open>a service that times out twice and answers from the third request on\<close>
  "ex_env_flaky = \<lparr>ALIYUN_API_KEY = Some (ustr ''sk-1''),
                    completions = (\<lambda>n title content.
                       if n < 2 then Inl (ustr ''Request timed out.'') else Inr (ustr ''T2|||<p>x</p>''))\<rparr>"

definition ex_key :: pystr where
  \<comment> \<open>the cache key of the title \<open>T\<close> with the content \<open>C\<close>\<close>
  "ex_key = ustr ''ai_result_v17_aliyun:ff9c072d42a94d0a5112613019b54eae''"

definition ex_st_empty :: state where
  "ex_st_empty = \<lparr>cache = Some Map.empty, ai_calls = []\<rparr>"

definition ex_st_nocache :: state where
  "ex_st_nocache = \<lparr>cache = None, ai_calls = []\<rparr>"

definition ex_st_hit :: state where
  "ex_st_hit = \<lparr>cache = Some [ex_key \<mapsto> (ustr ''T1|||<p>c</p>'', 604800)], ai_calls = []\<rparr>"

definition ex_st_malformed :: state where
  "ex_st_malformed = \<lparr>cache = Some [ex_key \<mapsto> (ustr ''a|||b|||c'', 604800)], ai_calls = []\<rparr>"

definition ex_entry :: entry where
  "ex_entry = \<lparr>entry_title = Some (ustr ''T''), entry_link = Some (ustr ''http://l/1''),
                entry_description = Some (ustr ''C''), entry_summary = None, entry_id = None\<rparr>"

definition ex_st_cached :: state where
  \<comment> \<open>the state after one successful request for the title \<open>T\<close> with the content \<open>C\<close>\<close>
  "ex_st_cached = \<lparr>cache = Some [ex_key \<mapsto> (ustr ''T2|||<p>x</p>'', 604800)],
                    ai_calls = [(ustr ''T'', ustr ''C'')]\<rparr>"

definition ex_st_failed :: state where
  \<comment> \<open>the state after one failed request for the title \<open>T\<close> with the content \<open>C\<close>\<close>
  "ex_st_failed = \<lparr>cache = Some Map.empty, ai_calls = [(ustr ''T'', ustr ''C'')]\<rparr>"

definition ex_result :: "nat \<Rightarrow> processed" where
  "ex_result i = \<lparr>res_index = i, res_cn_title = ustr ''T2'', res_link = ustr ''http://l/1'',
                   res_cn_content = ustr ''<p>x</p>'', res_id = ustr ''http://l/1''\<rparr>"

definition ex_entry_bad :: entry where
  \<comment> \<open>an entry whose title has a lone surrogate\<close>
  "ex_entry_bad = \<lparr>entry_title = Some [0x54, 0xD800], entry_link = Some (ustr ''http://l/2''),
                    entry_description = Some (ustr ''D''), entry_summary = None,
                    entry_id = Some (ustr ''id-2'')\<rparr>"

definition ex_env_surrogate :: env where
  \<comment> \<open>a service whose answer has a lone surrogate in the title\<close>
  "ex_env_surrogate = \<lparr>ALIYUN_API_KEY = Some (ustr ''sk-1''),
                        completions = (\<lambda>n title content. Inr (ustr ''T2'' @ [0xD800] @ ustr ''|||x''))\<rparr>"

text \<open>A task's outcome belongs to the task: a result carries the task's index and entry.\<close>

definition belongs :: "nat \<times> entry \<Rightarrow> exn + processed \<Rightarrow> bool" where
  "belongs task out = (\<forall>d. out = Inr d \<longrightarrow>
      res_index d = fst task \<and> res_link d = get_link (snd task) \<and> res_id d = get_id (snd task))"

section \<open>Properties of the string operations\<close>

lemma SEP_eq: "SEP = [124, 124, 124]"
  by (simp add: SEP_def ustr_def)


lemma split_not_Nil: "split sep s \<noteq> []"
  by (induction sep s rule: split.induct) (auto split: list.splits)

lemma split_no_sep: "\<not> contains sep s \<Longrightarrow> split sep s = [s]"
  by (induction sep s rule: split.induct) (auto split: list.splits)

lemma split_sep_length: "sep \<noteq> [] \<Longrightarrow> contains sep s \<Longrightarrow> 2 \<le> length (split sep s)"
proof (induction sep s rule: split.induct)
  case (1 sep)
  then show ?case by simp
next
  case (2 sep c s)
  show ?case
  proof (cases "take (length sep) (c # s) = sep")
    case True
    then show ?thesis using 2 split_not_Nil[of sep "drop (length sep) (c # s)"]
      by (cases "split sep (drop (length sep) (c # s))") auto
  next
    case False
    then have "contains sep s" using 2 by simp
    then have "2 \<le> length (split sep s)" using 2 False by simp
    then show ?thesis using False by (auto split: list.splits)
  qed
qed








lemma strip_take: "\<exists>m. strip s = take m (dropWhile isspace s)"
proof -
  have "rev (dropWhile P (rev u)) = take (length u - length (takeWhile P (rev u))) u"
    for P and u :: pystr
    by (simp add: dropWhile_eq_drop rev_drop)
  then show ?thesis unfolding strip_def rstrip_def lstrip_def by blast
qed

lemma trimmed_strip: "trimmed (strip s)"
proof (cases "strip s = []")
  case True
  then show ?thesis by (simp add: trimmed_def)
next
  case False
  obtain m where m: "strip s = take m (dropWhile isspace s)" using strip_take by blast
  have ne: "dropWhile isspace s \<noteq> []" "0 < m" using False m by auto
  then have "hd (strip s) = hd (dropWhile isspace s)" using m by simp
  then have h: "\<not> isspace (hd (strip s))" using ne hd_dropWhile[of isspace s] by simp
  have "rev (strip s) = dropWhile isspace (rev (lstrip s))"
    by (simp add: strip_def rstrip_def)
  moreover have "rev (strip s) \<noteq> []" using False by simp
  ultimately have "\<not> isspace (hd (rev (strip s)))"
    using hd_dropWhile[of isspace "rev (lstrip s)"] by simp
  then have "\<not> isspace (last (strip s))" using False by (simp add: hd_rev)
  then show ?thesis using h by (simp add: trimmed_def)
qed

section \<open>Properties of the encoding and of the digest\<close>

lemma unat_byte: "n < 256 \<Longrightarrow> unat (of_nat n :: byte) = n"
  by (simp add: unat_of_nat)

lemma split6: "(c::nat) mod 0x1000 = 0x40 * (c div 0x40 mod 0x40) + c mod 0x40"
  using mod_mult2_eq[of c "0x40" "0x40"] by simp

lemma split12: "(c::nat) mod 0x40000 = 0x1000 * (c div 0x1000 mod 0x40) + c mod 0x1000"
  using mod_mult2_eq[of c "0x1000" "0x40"] by simp

lemma dec1: "unat b = c \<Longrightarrow> c < 0x80 \<Longrightarrow> utf8_decode (b # rest) = c # utf8_decode rest"
  by simp

lemma dec2:
  "unat b = 0xC0 + h \<Longrightarrow> h < 0x20 \<Longrightarrow> unat b1 = 0x80 + l \<Longrightarrow>
     utf8_decode (b # b1 # rest) = (h * 0x40 + l) # utf8_decode rest"
  by simp

lemma dec3:
  "unat b = 0xE0 + h \<Longrightarrow> h < 0x10 \<Longrightarrow> unat b1 = 0x80 + m \<Longrightarrow> unat b2 = 0x80 + l \<Longrightarrow>
     utf8_decode (b # b1 # b2 # rest) = (h * 0x1000 + m * 0x40 + l) # utf8_decode rest"
  by simp

lemma dec4:
  "unat b = 0xF0 + h \<Longrightarrow> unat b1 = 0x80 + m \<Longrightarrow> unat b2 = 0x80 + k \<Longrightarrow>
   unat b3 = 0x80 + l \<Longrightarrow>
     utf8_decode (b # b1 # b2 # b3 # rest) = (h * 0x40000 + m * 0x1000 + k * 0x40 + l) # utf8_decode rest"
  by simp

lemma utf8_decode_char:
  assumes "encodable c"
  shows "utf8_decode (utf8 c @ rest) = c # utf8_decode rest"
proof -
  have c: "c < 0x110000" using assms by (auto simp: encodable_def)
  consider "c < 0x80" | "0x80 \<le> c" "c < 0x800" | "0x800 \<le> c" "c < 0x10000" | "0x10000 \<le> c"
    by linarith
  then show ?thesis
  proof cases
    case 1
    define b :: byte where "b = of_nat c"
    have "unat b = c" unfolding b_def using 1 by (intro unat_byte) simp
    then have "utf8_decode (b # rest) = c # utf8_decode rest" using 1 by (rule dec1)
    moreover have "utf8 c = [b]" unfolding b_def using 1 by (simp add: utf8_def)
    ultimately show ?thesis by simp
  next
    case 2
    define b :: byte where "b = of_nat (0xC0 + c div 0x40)"
    define b1 :: byte where "b1 = of_nat (0x80 + c mod 0x40)"
    have u: "unat b = 0xC0 + c div 0x40" unfolding b_def using 2 by (intro unat_byte) simp
    have u1: "unat b1 = 0x80 + c mod 0x40" unfolding b1_def by (intro unat_byte) simp
    have h: "c div 0x40 < 0x20" using 2 by simp
    have "utf8_decode (b # b1 # rest) = (c div 0x40 * 0x40 + c mod 0x40) # utf8_decode rest"
      using u h u1 by (rule dec2)
    moreover have "utf8 c = [b, b1]" unfolding b_def b1_def using 2 by (simp add: utf8_def)
    ultimately show ?thesis by simp
  next
    case 3
    define b :: byte where "b = of_nat (0xE0 + c div 0x1000)"
    define b1 :: byte where "b1 = of_nat (0x80 + c div 0x40 mod 0x40)"
    define b2 :: byte where "b2 = of_nat (0x80 + c mod 0x40)"
    have u: "unat b = 0xE0 + c div 0x1000" unfolding b_def using 3 by (intro unat_byte) simp
    have u1: "unat b1 = 0x80 + c div 0x40 mod 0x40" unfolding b1_def by (intro unat_byte) simp
    have u2: "unat b2 = 0x80 + c mod 0x40" unfolding b2_def by (intro unat_byte) simp
    have h: "c div 0x1000 < 0x10" using 3 by simp
    have e: "c div 0x1000 * 0x1000 + c div 0x40 mod 0x40 * 0x40 + c mod 0x40 = c"
    proof -
      have "c div 0x1000 * 0x1000 + c mod 0x1000 = c" by simp
      then show ?thesis using split6[of c] by simp
    qed
    have "utf8_decode (b # b1 # b2 # rest)
        = (c div 0x1000 * 0x1000 + c div 0x40 mod 0x40 * 0x40 + c mod 0x40) # utf8_decode rest"
      using u h u1 u2 by (rule dec3)
    moreover have "utf8 c = [b, b1, b2]"
      unfolding b_def b1_def b2_def using 3 by (simp add: utf8_def)
    ultimately show ?thesis using e by simp
  next
    case 4
    define b :: byte where "b = of_nat (0xF0 + c div 0x40000)"
    define b1 :: byte where "b1 = of_nat (0x80 + c div 0x1000 mod 0x40)"
    define b2 :: byte where "b2 = of_nat (0x80 + c div 0x40 mod 0x40)"
    define b3 :: byte where "b3 = of_nat (0x80 + c mod 0x40)"
    have u: "unat b = 0xF0 + c div 0x40000" unfolding b_def using c by (intro unat_byte) simp
    have u1: "unat b1 = 0x80 + c div 0x1000 mod 0x40" unfolding b1_def by (intro unat_byte) simp
    have u2: "unat b2 = 0x80 + c div 0x40 mod 0x40" unfolding b2_def by (intro unat_byte) simp
    have u3: "unat b3 = 0x80 + c mod 0x40" unfolding b3_def by (intro unat_byte) simp
    have e: "c div 0x40000 * 0x40000 + c div 0x1000 mod 0x40 * 0x1000
               + c div 0x40 mod 0x40 * 0x40 + c mod 0x40 = c"
    proof -
      have "c div 0x40000 * 0x40000 + c mod 0x40000 = c" by simp
      then show ?thesis using split6[of c] split12[of c] by simp
    qed
    have "utf8_decode (b # b1 # b2 # b3 # rest)
        = (c div 0x40000 * 0x40000 + c div 0x1000 mod 0x40 * 0x1000
               + c div 0x40 mod 0x40 * 0x40 + c mod 0x40) # utf8_decode rest"
      using u u1 u2 u3 by (rule dec4)
    moreover have "utf8 c = [b, b1, b2, b3]"
      unfolding b_def b1_def b2_def b3_def using 4 by (simp add: utf8_def)
    ultimately show ?thesis using e by simp
  qed
qed

lemma utf8_decode_encode: "list_all encodable s \<Longrightarrow> utf8_decode (concat (map utf8 s)) = s"
  by (induction s) (simp_all add: utf8_decode_char)

lemma utf8_inj:
  assumes "list_all encodable s1" and "list_all encodable s2"
  shows "concat (map utf8 s1) = concat (map utf8 s2) \<longleftrightarrow> s1 = s2"
proof
  assume "concat (map utf8 s1) = concat (map utf8 s2)"
  then have "utf8_decode (concat (map utf8 s1)) = utf8_decode (concat (map utf8 s2))" by simp
  then show "s1 = s2" using assms by (simp add: utf8_decode_encode)
next
  assume "s1 = s2"
  then show "concat (map utf8 s1) = concat (map utf8 s2)" by simp
qed

lemma hexdigit_inj: "hexdigit a = hexdigit b \<longleftrightarrow> a = b"
  by (auto simp: hexdigit_def split: if_splits)

lemma byte_nibbles:
  fixes x y :: byte
  assumes "unat x div 16 = unat y div 16" and "unat x mod 16 = unat y mod 16"
  shows "x = y"
proof -
  have "unat x = unat x div 16 * 16 + unat x mod 16" by simp
  also have "\<dots> = unat y div 16 * 16 + unat y mod 16" using assms by simp
  also have "\<dots> = unat y" by simp
  finally show ?thesis by (simp add: word_unat_eq_iff)
qed

lemma hexdigest_inj: "hexdigest xs = hexdigest ys \<longleftrightarrow> xs = ys"
proof (induction xs arbitrary: ys)
  case Nil
  then show ?case by (cases ys) (auto simp: hexdigest_def)
next
  case (Cons x xs)
  show ?case
  proof (cases ys)
    case Nil
    then show ?thesis by (simp add: hexdigest_def)
  next
    case (Cons y ys')
    have "hexdigest (x # xs) = hexdigest (y # ys') \<longleftrightarrow>
          unat x div 16 = unat y div 16 \<and> unat x mod 16 = unat y mod 16
          \<and> hexdigest xs = hexdigest ys'"
      by (simp add: hexdigest_def hexdigit_inj)
    then show ?thesis using Cons Cons.IH[of ys'] byte_nibbles[of x y] by auto
  qed
qed

lemma cache_key_encodable:
  "list_all encodable (title @ take 200 content) \<Longrightarrow>
     cache_key title content =
       Inr (CACHE_PREFIX @ hexdigest (md5 (concat (map utf8 (title @ take 200 content)))))"
  by (simp add: cache_key_def encode_def)

lemma hexdigest_ascii: "list_all (\<lambda>c. c < 128) (hexdigest bs)"
proof (induction bs)
  case Nil
  then show ?case by (simp add: hexdigest_def)
next
  case (Cons b bs)
  have "unat b < 2 ^ LENGTH(8)" by (rule unsigned_less)
  then have "unat b div 16 < 16" by simp
  then have "hexdigit (unat b div 16) < 128" "hexdigit (unat b mod 16) < 128"
    by (auto simp: hexdigit_def)
  then show ?case using Cons by (simp add: hexdigest_def)
qed

lemma cache_key_ascii: "cache_key title content = Inr key \<Longrightarrow> list_all (\<lambda>c. c < 128) key"
  using hexdigest_ascii
  by (auto simp: cache_key_def CACHE_PREFIX_def ustr_def split: sum.splits)

lemma cache_key_raises:
  "\<not> list_all encodable (title @ take 200 content) \<Longrightarrow>
     cache_key title content =
       Inl (UnicodeEncodeError (str_encode_error (title @ take 200 content)))"
  by (simp add: cache_key_def encode_def)

section \<open>The fingerprint\<close>

text \<open>The model of MD5 on the test vector \<open>"abc"\<close> of RFC 1321.\<close>

lemma md5_abc: "hexdigest (md5 [0x61, 0x62, 0x63]) = ustr ''900150983cd24fb0d6963f7d28e17f72''"
  by code_simp

lemma md5_TC: "hexdigest (md5 [0x54, 0x43]) = ustr ''ff9c072d42a94d0a5112613019b54eae''"
  by code_simp

lemma encode_TC: "encode (ustr ''T'' @ take 200 (ustr ''C'')) = Inr [0x54, 0x43]"
  by (simp add: encode_def ustr_def encodable_def utf8_def)

lemma ex_key_eq: "cache_key (ustr ''T'') (ustr ''C'') = Inr ex_key"
  unfolding cache_key_def encode_TC ex_key_def
  by (simp add: md5_TC CACHE_PREFIX_def ustr_def)

lemma ex_entry_fields:
  "get_title ex_entry = ustr ''T''" "get_raw_content ex_entry = ustr ''C''"
  "get_link ex_entry = ustr ''http://l/1''" "get_id ex_entry = ustr ''http://l/1''"
  by (simp_all add: get_title_def get_raw_content_def get_link_def get_id_def ex_entry_def
      truthy_def ustr_def)

lemma utf8_TC: "concat (map utf8 (ustr ''T'' @ take 200 (ustr ''C''))) = [0x54, 0x43]"
  by (simp add: ustr_def utf8_def)

lemma utf8_abc: "concat (map utf8 (ustr ''ab'' @ take 200 (ustr ''c''))) = [0x61, 0x62, 0x63]"
  by (simp add: ustr_def utf8_def)

lemma md5_TC_abc: "md5 [0x54, 0x43] \<noteq> md5 [0x61, 0x62, 0x63]"
proof
  assume "md5 [0x54, 0x43] = md5 [0x61, 0x62, 0x63]"
  then have "hexdigest (md5 [0x54, 0x43]) = hexdigest (md5 [0x61, 0x62, 0x63])" by simp
  then show False unfolding md5_TC md5_abc by (simp add: ustr_def)
qed

text \<open>
  Claim C10, as amended. Two inputs with the same concatenation \<open>title + content[:200]\<close>
  have the same fingerprint. For two inputs whose concatenations can be encoded, the
  fingerprints are equal exactly when the MD5 digests of the UTF-8 encodings of the
  concatenations are equal, and the encodings are equal exactly when the concatenations
  are: inputs with different concatenations have different fingerprints unless MD5
  collides on their two different encodings.
\<close>

theorem fingerprint_collisions:
  "(title1 @ take 200 content1 = title2 @ take 200 content2
      \<longrightarrow> cache_key title1 content1 = cache_key title2 content2)
   \<and> (list_all encodable (title1 @ take 200 content1)
      \<and> list_all encodable (title2 @ take 200 content2)
      \<longrightarrow> (cache_key title1 content1 = cache_key title2 content2
             \<longleftrightarrow> md5 (concat (map utf8 (title1 @ take 200 content1)))
                 = md5 (concat (map utf8 (title2 @ take 200 content2))))
          \<and> (concat (map utf8 (title1 @ take 200 content1))
               = concat (map utf8 (title2 @ take 200 content2))
             \<longleftrightarrow> title1 @ take 200 content1 = title2 @ take 200 content2))"
proof -
  have a: "cache_key title1 content1 = cache_key title2 content2"
    if "title1 @ take 200 content1 = title2 @ take 200 content2"
    using that by (simp add: cache_key_def)
  have b: "(cache_key title1 content1 = cache_key title2 content2
             \<longleftrightarrow> md5 (concat (map utf8 (title1 @ take 200 content1)))
                 = md5 (concat (map utf8 (title2 @ take 200 content2))))
          \<and> (concat (map utf8 (title1 @ take 200 content1))
               = concat (map utf8 (title2 @ take 200 content2))
             \<longleftrightarrow> title1 @ take 200 content1 = title2 @ take 200 content2)"
    if e: "list_all encodable (title1 @ take 200 content1)"
      "list_all encodable (title2 @ take 200 content2)"
  proof -
    have "cache_key title1 content1 = cache_key title2 content2
             \<longleftrightarrow> md5 (concat (map utf8 (title1 @ take 200 content1)))
                 = md5 (concat (map utf8 (title2 @ take 200 content2)))"
      unfolding cache_key_encodable[OF e(1)] cache_key_encodable[OF e(2)]
      by (simp only: sum.inject same_append_eq hexdigest_inj)
    then show ?thesis using utf8_inj[OF e] by blast
  qed
  show ?thesis using a b by blast
qed

text \<open>
  Witness for C10: the titles \<open>ab\<close> and \<open>a\<close> with the contents \<open>c\<close> and \<open>bc\<close>
  have one concatenation and one fingerprint; the title \<open>T\<close> with the content \<open>C\<close>
  has another concatenation, another digest and another fingerprint.
\<close>

theorem fingerprint_collisions_witness:
  "ustr ''ab'' @ take 200 (ustr ''c'') = ustr ''a'' @ take 200 (ustr ''bc'')
   \<and> cache_key (ustr ''ab'') (ustr ''c'') = cache_key (ustr ''a'') (ustr ''bc'')
   \<and> list_all encodable (ustr ''T'' @ take 200 (ustr ''C''))
   \<and> list_all encodable (ustr ''ab'' @ take 200 (ustr ''c''))
   \<and> md5 (concat (map utf8 (ustr ''T'' @ take 200 (ustr ''C''))))
       \<noteq> md5 (concat (map utf8 (ustr ''ab'' @ take 200 (ustr ''c''))))
   \<and> cache_key (ustr ''T'') (ustr ''C'') \<noteq> cache_key (ustr ''ab'') (ustr ''c'')"
proof -
  have h: "ustr ''ab'' @ take 200 (ustr ''c'') = ustr ''a'' @ take 200 (ustr ''bc'')"
    by (simp add: ustr_def)
  have e1: "list_all encodable (ustr ''T'' @ take 200 (ustr ''C''))"
    by (simp add: ustr_def encodable_def)
  have e2: "list_all encodable (ustr ''ab'' @ take 200 (ustr ''c''))"
    by (simp add: ustr_def encodable_def)
  have m: "md5 (concat (map utf8 (ustr ''T'' @ take 200 (ustr ''C''))))
       \<noteq> md5 (concat (map utf8 (ustr ''ab'' @ take 200 (ustr ''c''))))"
    unfolding utf8_TC utf8_abc by (rule md5_TC_abc)
  have "cache_key (ustr ''ab'') (ustr ''c'') = cache_key (ustr ''a'') (ustr ''bc'')"
    using fingerprint_collisions[of "ustr ''ab''" "ustr ''c''" "ustr ''a''" "ustr ''bc''"] h
    by blast
  moreover have "cache_key (ustr ''T'') (ustr ''C'') \<noteq> cache_key (ustr ''ab'') (ustr ''c'')"
    using fingerprint_collisions[of "ustr ''T''" "ustr ''C''" "ustr ''ab''" "ustr ''c''"] e1 e2 m
    by blast
  ultimately show ?thesis using h e1 e2 m by blast
qed

text \<open>
  Counterexample to C10 as stated: two inputs with the same title whose contents agree on
  the first 200 characters and differ in the 201st are different inputs with one
  fingerprint.
\<close>

theorem fingerprint_counterexample:
  "(ustr ''T'', replicate 200 (97::nat) @ [120]) \<noteq> (ustr ''T'', replicate 200 (97::nat) @ [121])
   \<and> cache_key (ustr ''T'') (replicate 200 97 @ [120])
       = cache_key (ustr ''T'') (replicate 200 97 @ [121])"
  by (simp add: cache_key_def)

section \<open>The cached value\<close>

lemma cached_result_Some: "split SEP v = [t, c] \<Longrightarrow> cached_result (Some v) = Some (t, c)"
  by (cases v) (auto simp: cached_result_def Let_def)

lemma cached_result_malformed: "length (split SEP v) \<noteq> 2 \<Longrightarrow> cached_result (Some v) = None"
  by (simp add: cached_result_def Let_def)





section \<open>\<open>get_ai_processing\<close>: the paths\<close>

lemma ai_request_cache_upd:
  "ai_request env (st\<lparr>cache := x\<rparr>) title content =
     (case ai_request env st title content of (r, st') \<Rightarrow> (r, st'\<lparr>cache := x\<rparr>))"
  by (simp add: ai_request_def split: option.splits)

lemma ai_request_cache: "ai_request env st title content = (r, st') \<Longrightarrow> cache st' = cache st"
  by (auto simp: ai_request_def split: option.splits if_splits)

lemma ai_request_Inr:
  "ai_request env st title content = (Inr reply, st') \<Longrightarrow>
     completions env (length (ai_calls st)) title content = Inr reply \<and>
     st' = st\<lparr>ai_calls := ai_calls st @ [(title, content)]\<rparr>"
  by (auto simp: ai_request_def split: option.splits if_splits)

lemma hit_returns_cached:
  assumes "cache st = Some db" and "cache_key title content = Inr key"
    and "redis_get db key = Some v" and "split SEP v = [t, c]"
  shows "get_ai_processing env st title content = (Inr (Tuple2 t c), st)"
  using assms by (simp add: get_ai_processing_def cached_result_Some)

lemma transform_on_miss:
  assumes "cache st = Some db" and "cache_key title content = Inr key"
    and "cached_result (redis_get db key) = None"
  shows "get_ai_processing env st title content =
           (case ai_transform env st db key title content of (r, st') \<Rightarrow> (Inr r, st'))"
  using assms by (simp add: get_ai_processing_def)

lemma ai_transform_Inl:
  "ai_request env st title content = (Inl detail, st1) \<Longrightarrow>
     ai_transform env st db key title content =
       (Tuple3 title AI_ERROR_MARKER (error_detail detail content), st1)"
  by (simp add: ai_transform_def)

lemma ai_transform_Inr:
  "ai_request env st title content = (Inr reply, st1) \<Longrightarrow>
     ai_transform env st db key title content =
       (let parts = split SEP (clean_response reply);
            cn_title = strip (parts ! 0);
            cn_content = (if length parts > 1 then strip (parts ! 1) else content)
        in if list_all encodable (cn_title @ SEP @ cn_content)
           then (Tuple2 cn_title cn_content,
                 st1\<lparr>cache := Some (redis_setex db key 604800 (cn_title @ SEP @ cn_content))\<rparr>)
           else (Tuple3 title AI_ERROR_MARKER
                   (error_detail (str_encode_error (cn_title @ SEP @ cn_content)) content), st1))"
  using split_not_Nil[of SEP "clean_response reply"]
  by (simp add: ai_transform_def Let_def cache_setex_def encode_def)

text \<open>
  What a call returns when the lookup misses and the service answers: the title and the
  content are read off the cleaned response; if their composite can be encoded, they are
  returned and the composite is written; if not, \<open>cache.setex\<close> raises inside the
  \<open>try\<close> block and the handler's result is returned, with nothing written.
\<close>

lemma transform_outcome:
  assumes "cache st = Some db" and "cache_key title content = Inr key"
    and "cached_result (redis_get db key) = None"
    and "ai_request env st title content = (Inr reply, st1)"
  shows "\<exists>t c.
           (if contains SEP (clean_response reply)
            then (\<exists>p q rest. split SEP (clean_response reply) = p # q # rest
                    \<and> t = strip p \<and> c = strip q)
            else t = strip (clean_response reply) \<and> c = content)
         \<and> get_ai_processing env st title content =
             (if list_all encodable (t @ SEP @ c)
              then (Inr (Tuple2 t c),
                    st1\<lparr>cache := Some (redis_setex db key 604800 (t @ SEP @ c))\<rparr>)
              else (Inr (Tuple3 title AI_ERROR_MARKER
                           (error_detail (str_encode_error (t @ SEP @ c)) content)), st1))"
proof -
  have ne: "SEP \<noteq> []" by (simp add: SEP_eq)
  have g: "get_ai_processing env st title content =
           (case ai_transform env st db key title content of (r, st') \<Rightarrow> (Inr r, st'))"
    using assms by (simp add: transform_on_miss)
  note t = ai_transform_Inr[OF assms(4), of db key]
  show ?thesis
  proof (cases "contains SEP (clean_response reply)")
    case False
    then show ?thesis using split_no_sep[OF False] by (simp add: g t Let_def)
  next
    case True
    have "2 \<le> length (split SEP (clean_response reply))"
      using split_sep_length[OF ne True] .
    then obtain p q rest where s: "split SEP (clean_response reply) = p # q # rest"
      by (cases "split SEP (clean_response reply)"; cases "tl (split SEP (clean_response reply))")
        auto
    then show ?thesis using True by (simp add: g t Let_def)
  qed
qed

subsection \<open>The example requests, evaluated\<close>

lemma ex_miss: "cached_result (redis_get Map.empty ex_key) = None"
  by (simp add: cached_result_def redis_get_def)

lemma ex_clean:
  "clean_response (ustr '' ```html T2 ||| <p>x</p> ``` '') = ustr '' T2 ||| <p>x</p> ''"
  by (simp add: clean_response_def ustr_def strip_def lstrip_def rstrip_def isspace_def)

lemma ex_split:
  "split SEP (ustr '' T2 ||| <p>x</p> '') = [ustr '' T2 '', ustr '' <p>x</p> '']"
  by (simp add: SEP_def ustr_def)

lemma ex_strip:
  "strip (ustr '' T2 '') = ustr ''T2''" "strip (ustr '' <p>x</p> '') = ustr ''<p>x</p>''"
  "strip (ustr ''hello'') = ustr ''hello''"
  by (simp_all add: ustr_def strip_def lstrip_def rstrip_def isspace_def)

lemma ex_request_ok:
  "ai_request ex_env_ok ex_st_empty (ustr ''T'') (ustr ''C'')
     = (Inr (ustr '' ```html T2 ||| <p>x</p> ``` ''),
        ex_st_empty\<lparr>ai_calls := [(ustr ''T'', ustr ''C'')]\<rparr>)"
  by (simp add: ai_request_def ex_env_ok_def ex_st_empty_def ustr_def)

lemma ex_request_plain:
  "ai_request ex_env_plain ex_st_empty (ustr ''T'') (ustr ''C'')
     = (Inr (ustr ''hello''), ex_st_empty\<lparr>ai_calls := [(ustr ''T'', ustr ''C'')]\<rparr>)"
  by (simp add: ai_request_def ex_env_plain_def ex_st_empty_def ustr_def)

lemma ex_request_down:
  "ai_request ex_env_down ex_st_empty (ustr ''T'') (ustr ''C'')
     = (Inl (ustr ''Request timed out.''), ex_st_failed)"
  by (simp add: ai_request_def ex_env_down_def ex_st_empty_def ex_st_failed_def ustr_def)

lemma ex_composite: "ustr ''T2'' @ SEP @ ustr ''<p>x</p>'' = ustr ''T2|||<p>x</p>''"
  by (simp add: SEP_def ustr_def)

lemma ex_composite_ok:
  "list_all encodable SEP" "list_all encodable (ustr ''T2'')"
  "list_all encodable (ustr ''<p>x</p>'')"
  by (simp_all add: SEP_def ustr_def encodable_def)

lemma ex_ok_result:
  "get_ai_processing ex_env_ok ex_st_empty (ustr ''T'') (ustr ''C'')
     = (Inr (Tuple2 (ustr ''T2'') (ustr ''<p>x</p>'')), ex_st_cached)"
proof -
  have c: "cache ex_st_empty = Some Map.empty" by (simp add: ex_st_empty_def)
  have "ai_transform ex_env_ok ex_st_empty Map.empty ex_key (ustr ''T'') (ustr ''C'')
      = (Tuple2 (ustr ''T2'') (ustr ''<p>x</p>''), ex_st_cached)"
    unfolding ai_transform_Inr[OF ex_request_ok] ex_clean ex_split
    by (simp add: ex_strip ex_composite ex_composite_ok redis_setex_def ex_st_empty_def
        ex_st_cached_def Let_def)
  then show ?thesis
    unfolding transform_on_miss[OF c ex_key_eq ex_miss] by simp
qed

lemma ex_hit_result:
  "get_ai_processing env ex_st_cached (ustr ''T'') (ustr ''C'')
     = (Inr (Tuple2 (ustr ''T2'') (ustr ''<p>x</p>'')), ex_st_cached)"
proof -
  have c: "cache ex_st_cached = Some [ex_key \<mapsto> (ustr ''T2|||<p>x</p>'', 604800)]"
    by (simp add: ex_st_cached_def)
  have g: "redis_get [ex_key \<mapsto> (ustr ''T2|||<p>x</p>'', 604800)] ex_key = Some (ustr ''T2|||<p>x</p>'')"
    by (simp add: redis_get_def)
  have s: "split SEP (ustr ''T2|||<p>x</p>'') = [ustr ''T2'', ustr ''<p>x</p>'']"
    by (simp add: SEP_def ustr_def)
  show ?thesis by (rule hit_returns_cached[OF c ex_key_eq g s])
qed

lemma ex_request_surrogate:
  "ai_request ex_env_surrogate ex_st_empty (ustr ''T'') (ustr ''C'')
     = (Inr (ustr ''T2'' @ [0xD800] @ ustr ''|||x''), ex_st_failed)"
  by (simp add: ai_request_def ex_env_surrogate_def ex_st_empty_def ex_st_failed_def ustr_def)

lemma ex_surrogate_result:
  "get_ai_processing ex_env_surrogate ex_st_empty (ustr ''T'') (ustr ''C'')
     = (Inr (Tuple3 (ustr ''T'') AI_ERROR_MARKER
              (error_detail (str_encode_error (ustr ''T2'' @ [0xD800] @ SEP @ ustr ''x''))
                 (ustr ''C''))), ex_st_failed)"
proof -
  have c: "cache ex_st_empty = Some Map.empty" by (simp add: ex_st_empty_def)
  have cl: "clean_response (ustr ''T2'' @ [0xD800] @ ustr ''|||x'') = ustr ''T2'' @ [0xD800] @ ustr ''|||x''"
    by (simp add: clean_response_def ustr_def strip_def lstrip_def rstrip_def isspace_def)
  have sp: "split SEP (ustr ''T2'' @ [0xD800] @ ustr ''|||x'') = [ustr ''T2'' @ [0xD800], ustr ''x'']"
    by (simp add: SEP_def ustr_def)
  have st: "strip (ustr ''T2'' @ [0xD800]) = ustr ''T2'' @ [0xD800]" "strip (ustr ''x'') = ustr ''x''"
    by (simp_all add: ustr_def strip_def lstrip_def rstrip_def isspace_def)
  have ne: "\<not> list_all encodable ((ustr ''T2'' @ [0xD800]) @ SEP @ ustr ''x'')"
    by (simp add: encodable_def)
  have "ai_transform ex_env_surrogate ex_st_empty Map.empty ex_key (ustr ''T'') (ustr ''C'')
      = (Tuple3 (ustr ''T'') AI_ERROR_MARKER
              (error_detail (str_encode_error (ustr ''T2'' @ [0xD800] @ SEP @ ustr ''x''))
                 (ustr ''C'')), ex_st_failed)"
    unfolding ai_transform_Inr[OF ex_request_surrogate] cl sp
    using ne by (simp add: st Let_def)
  then show ?thesis
    unfolding transform_on_miss[OF c ex_key_eq ex_miss] by simp
qed

section \<open>The cache hit\<close>

text \<open>
  Claim C6. When the cache holds, under the entry's fingerprint, a value that splits on
  the separator into exactly two segments, \<open>get_ai_processing\<close> returns the two
  segments and leaves the state as it was, so no request is sent to the service, and
  \<open>process_single_entry\<close> returns them as the entry's title and content.
\<close>

theorem cache_hit_skips_service:
  assumes "cache st = Some db"
    and "cache_key (get_title entry) (get_raw_content entry) = Inr key"
    and "redis_get db key = Some v"
    and "split SEP v = [t, c]"
  shows "get_ai_processing env st (get_title entry) (get_raw_content entry) = (Inr (Tuple2 t c), st)
       \<and> process_single_entry env st (index, entry) =
           (Inr \<lparr>res_index = index, res_cn_title = t, res_link = get_link entry,
                 res_cn_content = c, res_id = get_id entry\<rparr>, st)"
proof -
  have "get_ai_processing env st (get_title entry) (get_raw_content entry) = (Inr (Tuple2 t c), st)"
    using assms by (rule hit_returns_cached)
  then show ?thesis by (simp add: process_single_entry_def)
qed

text \<open>
  Witness for C6: the cache holds \<open>T1|||<p>c</p>\<close> for the example entry, and the
  service is down.
\<close>

theorem cache_hit_skips_service_witness:
  "cache ex_st_hit = Some [ex_key \<mapsto> (ustr ''T1|||<p>c</p>'', 604800)]
   \<and> cache_key (get_title ex_entry) (get_raw_content ex_entry) = Inr ex_key
   \<and> redis_get [ex_key \<mapsto> (ustr ''T1|||<p>c</p>'', 604800)] ex_key = Some (ustr ''T1|||<p>c</p>'')
   \<and> split SEP (ustr ''T1|||<p>c</p>'') = [ustr ''T1'', ustr ''<p>c</p>'']
   \<and> get_ai_processing ex_env_down ex_st_hit (ustr ''T'') (ustr ''C'')
        = (Inr (Tuple2 (ustr ''T1'') (ustr ''<p>c</p>'')), ex_st_hit)
   \<and> process_single_entry ex_env_down ex_st_hit (7, ex_entry) =
        (Inr \<lparr>res_index = 7, res_cn_title = ustr ''T1'', res_link = ustr ''http://l/1'',
              res_cn_content = ustr ''<p>c</p>'', res_id = ustr ''http://l/1''\<rparr>, ex_st_hit)"
proof -
  have 1: "cache ex_st_hit = Some [ex_key \<mapsto> (ustr ''T1|||<p>c</p>'', 604800)]"
    by (simp add: ex_st_hit_def)
  have 2: "cache_key (get_title ex_entry) (get_raw_content ex_entry) = Inr ex_key"
    by (simp add: ex_entry_fields ex_key_eq)
  have 3: "redis_get [ex_key \<mapsto> (ustr ''T1|||<p>c</p>'', 604800)] ex_key = Some (ustr ''T1|||<p>c</p>'')"
    by (simp add: redis_get_def)
  have 4: "split SEP (ustr ''T1|||<p>c</p>'') = [ustr ''T1'', ustr ''<p>c</p>'']"
    by (simp add: SEP_def ustr_def)
  show ?thesis
    using cache_hit_skips_service[OF 1 2 3 4, of ex_env_down 7] 1 2 3 4
    by (simp add: ex_entry_fields)
qed

section \<open>The malformed cached value\<close>

text \<open>
  Claim C7. When the cached value does not split into exactly two segments, the lookup
  raises nothing and \<open>get_ai_processing\<close> goes on to the transform step; what it
  returns and the requests it sends are those of the same call on a cache without the
  key.
\<close>

theorem malformed_cached_value_is_miss:
  assumes "cache st = Some db"
    and "cache_key title content = Inr key"
    and "redis_get db key = Some v"
    and "length (split SEP v) \<noteq> 2"
  shows "get_ai_processing env st title content =
           (case ai_transform env st db key title content of (r, st') \<Rightarrow> (Inr r, st'))
       \<and> fst (get_ai_processing env st title content) =
           fst (get_ai_processing env (st\<lparr>cache := Some (db(key := None))\<rparr>) title content)
       \<and> ai_calls (snd (get_ai_processing env st title content)) =
           ai_calls (snd (get_ai_processing env (st\<lparr>cache := Some (db(key := None))\<rparr>) title content))"
proof -
  have a: "get_ai_processing env st title content =
           (case ai_transform env st db key title content of (r, st') \<Rightarrow> (Inr r, st'))"
    using assms by (simp add: get_ai_processing_def cached_result_malformed)
  have b: "get_ai_processing env (st\<lparr>cache := Some (db(key := None))\<rparr>) title content =
           (case ai_transform env (st\<lparr>cache := Some (db(key := None))\<rparr>) (db(key := None)) key
                   title content
            of (r, st') \<Rightarrow> (Inr r, st'))"
    using assms by (simp add: get_ai_processing_def redis_get_def cached_result_def)
  show ?thesis
    unfolding a b
    by (auto simp: ai_transform_def ai_request_cache_upd cache_setex_def Let_def
        split: prod.splits sum.splits)
qed

text \<open>
  Witness for C7: the cache holds the three segments \<open>a|||b|||c\<close> for the example
  entry; the call returns what the call on the empty cache returns.
\<close>

theorem malformed_cached_value_is_miss_witness:
  "cache ex_st_malformed = Some [ex_key \<mapsto> (ustr ''a|||b|||c'', 604800)]
   \<and> cache_key (ustr ''T'') (ustr ''C'') = Inr ex_key
   \<and> redis_get [ex_key \<mapsto> (ustr ''a|||b|||c'', 604800)] ex_key = Some (ustr ''a|||b|||c'')
   \<and> length (split SEP (ustr ''a|||b|||c'')) = 3
   \<and> fst (get_ai_processing ex_env_ok ex_st_malformed (ustr ''T'') (ustr ''C''))
       = fst (get_ai_processing ex_env_ok ex_st_empty (ustr ''T'') (ustr ''C''))
   \<and> fst (get_ai_processing ex_env_ok ex_st_malformed (ustr ''T'') (ustr ''C''))
       = Inr (Tuple2 (ustr ''T2'') (ustr ''<p>x</p>''))"
proof -
  have 1: "cache ex_st_malformed = Some [ex_key \<mapsto> (ustr ''a|||b|||c'', 604800)]"
    by (simp add: ex_st_malformed_def)
  have 3: "redis_get [ex_key \<mapsto> (ustr ''a|||b|||c'', 604800)] ex_key = Some (ustr ''a|||b|||c'')"
    by (simp add: redis_get_def)
  have l: "length (split SEP (ustr ''a|||b|||c'')) = 3"
    by (simp add: SEP_def ustr_def)
  then have 4: "length (split SEP (ustr ''a|||b|||c'')) \<noteq> 2" by simp
  have e: "ex_st_malformed\<lparr>cache := Some ([ex_key \<mapsto> (ustr ''a|||b|||c'', 604800)](ex_key := None))\<rparr>
           = ex_st_empty"
    by (simp add: ex_st_malformed_def ex_st_empty_def)
  note m = malformed_cached_value_is_miss[OF 1 ex_key_eq 3 4, of ex_env_ok, unfolded e]
  have f: "fst (get_ai_processing ex_env_ok ex_st_malformed (ustr ''T'') (ustr ''C''))
       = fst (get_ai_processing ex_env_ok ex_st_empty (ustr ''T'') (ustr ''C''))"
    using m by blast
  show ?thesis
    using f 1 3 l ex_key_eq by (simp add: ex_ok_result)
qed

section \<open>The cache write\<close>

lemma write_on_success:
  assumes "cache st = Some db" and "cache_key title content = Inr key"
    and "cached_result (redis_get db key) = None"
    and "ai_request env st title content = (Inr reply, st1)"
  shows "\<exists>t c. get_ai_processing env st title content =
            (if list_all encodable (t @ SEP @ c)
             then (Inr (Tuple2 t c),
                   st1\<lparr>cache := Some (redis_setex db key 604800 (t @ SEP @ c))\<rparr>)
             else (Inr (Tuple3 title AI_ERROR_MARKER
                          (error_detail (str_encode_error (t @ SEP @ c)) content)), st1))"
  using transform_outcome[OF assms] by blast

lemma write_only_on_success:
  assumes "cache (snd (get_ai_processing env st title content)) \<noteq> cache st"
  shows "\<exists>db key reply t c. cache st = Some db \<and> cache_key title content = Inr key
           \<and> cached_result (redis_get db key) = None
           \<and> completions env (length (ai_calls st)) title content = Inr reply
           \<and> fst (get_ai_processing env st title content) = Inr (Tuple2 t c)
           \<and> list_all encodable (t @ SEP @ c)
           \<and> cache (snd (get_ai_processing env st title content))
               = Some (redis_setex db key 604800 (t @ SEP @ c))"
proof (cases "cache st")
  case None
  then show ?thesis using assms by (simp add: get_ai_processing_def)
next
  case (Some db)
  note c = this
  show ?thesis
  proof (cases "cache_key title content")
    case (Inl e)
    then show ?thesis using assms c by (simp add: get_ai_processing_def)
  next
    case (Inr key)
    note k = this
    show ?thesis
    proof (cases "cached_result (redis_get db key)")
      case (Some tc)
      then show ?thesis using assms c k
        by (cases tc) (simp add: get_ai_processing_def)
    next
      case None
      note miss = c k None
      obtain r st1 where q: "ai_request env st title content = (r, st1)" by force
      show ?thesis
      proof (cases r)
        case (Inl detail)
        then have "get_ai_processing env st title content =
            (Inr (Tuple3 title AI_ERROR_MARKER (error_detail detail content)), st1)"
          using q miss by (simp add: transform_on_miss ai_transform_Inl)
        then show ?thesis using assms ai_request_cache[OF q] by simp
      next
        case (Inr reply)
        then have q': "ai_request env st title content = (Inr reply, st1)" using q by simp
        obtain t c where w: "get_ai_processing env st title content =
            (if list_all encodable (t @ SEP @ c)
             then (Inr (Tuple2 t c),
                   st1\<lparr>cache := Some (redis_setex db key 604800 (t @ SEP @ c))\<rparr>)
             else (Inr (Tuple3 title AI_ERROR_MARKER
                          (error_detail (str_encode_error (t @ SEP @ c)) content)), st1))"
          using write_on_success[OF miss q'] by blast
        show ?thesis
        proof (cases "list_all encodable (t @ SEP @ c)")
          case True
          then have "get_ai_processing env st title content =
              (Inr (Tuple2 t c),
               st1\<lparr>cache := Some (redis_setex db key 604800 (t @ SEP @ c))\<rparr>)"
            using w by (simp only: if_True)
          then show ?thesis using True miss ai_request_Inr[OF q'] by simp
        next
          case False
          then have "get_ai_processing env st title content =
              (Inr (Tuple3 title AI_ERROR_MARKER
                      (error_detail (str_encode_error (t @ SEP @ c)) content)), st1)"
            using w by (simp only: if_False)
          then show ?thesis using assms ai_request_cache[OF q] by simp
        qed
      qed
    qed
  qed
qed

lemma degraded_not_written:
  "fst (get_ai_processing env st title content) = Inr (Tuple3 a b c) \<Longrightarrow>
     cache (snd (get_ai_processing env st title content)) = cache st"
  using write_only_on_success[of env st title content] by fastforce

lemma retry_after_failure:
  assumes "cache st = Some db" and "cache_key title content = Inr key"
    and "cached_result (redis_get db key) = None"
    and "truthy (ALIYUN_API_KEY env)"
  shows "(\<forall>i<n. isl (completions env (length (ai_calls st) + i) title content)) \<Longrightarrow>
     repeat_request env st title content n
       = st\<lparr>ai_calls := ai_calls st @ replicate n (title, content)\<rparr>"
proof (induction n)
  case 0
  then show ?case by simp
next
  case (Suc n)
  define st' where "st' = st\<lparr>ai_calls := ai_calls st @ replicate n (title, content)\<rparr>"
  have rr: "repeat_request env st title content n = st'" using Suc by (simp add: st'_def)
  have "isl (completions env (length (ai_calls st) + n) title content)" using Suc.prems by simp
  then obtain detail where d: "completions env (length (ai_calls st')) title content = Inl detail"
    by (cases "completions env (length (ai_calls st) + n) title content") (auto simp: st'_def)
  have q: "ai_request env st' title content =
             (Inl detail, st'\<lparr>ai_calls := ai_calls st' @ [(title, content)]\<rparr>)"
    using assms(4) d by (auto simp: ai_request_def truthy_def split: option.splits)
  have "cache st' = Some db" using assms(1) by (simp add: st'_def)
  then have "get_ai_processing env st' title content =
        (Inr (Tuple3 title AI_ERROR_MARKER (error_detail detail content)),
         st'\<lparr>ai_calls := ai_calls st' @ [(title, content)]\<rparr>)"
    using assms(2,3) q by (simp add: transform_on_miss ai_transform_Inl)
  then show ?case using rr by (simp add: st'_def replicate_append_same)
qed

text \<open>
  Claim C8. (1) When the lookup misses and the service answers, a title and a content are
  read off the cleaned response (its first two segments, trimmed, or the whole of it and
  the content passed in). Either their composite can be encoded, and then the pair is
  returned and the composite is written under the entry's fingerprint with a time-to-live
  of 604800 seconds; or it cannot, and then \<open>cache.setex\<close> raises, the degraded
  result is returned and nothing is written. (2) The cache changes in no other case: if it changed,
  the lookup missed, the service answered, a pair was returned and the new cache is the
  old one with that pair's composite. (3) A degraded result leaves the cache as it was.
  (4) While the service fails, every one of \<open>n\<close> successive requests for the entry
  sends a request to the service and the cache stays as it was, so the next request
  attempts the transform again.
\<close>

theorem cache_written_exactly_on_success:
  "(cache st = Some db \<and> cache_key title content = Inr key
      \<and> cached_result (redis_get db key) = None
      \<and> ai_request env st title content = (Inr reply, st1)
     \<longrightarrow> (\<exists>t c.
           (if contains SEP (clean_response reply)
            then (\<exists>p q rest. split SEP (clean_response reply) = p # q # rest
                    \<and> t = strip p \<and> c = strip q)
            else t = strip (clean_response reply) \<and> c = content)
         \<and> get_ai_processing env st title content =
            (if list_all encodable (t @ SEP @ c)
             then (Inr (Tuple2 t c),
                   st1\<lparr>cache := Some (redis_setex db key 604800 (t @ SEP @ c))\<rparr>)
             else (Inr (Tuple3 title AI_ERROR_MARKER
                          (error_detail (str_encode_error (t @ SEP @ c)) content)), st1))))
   \<and> (cache (snd (get_ai_processing env st title content)) \<noteq> cache st
     \<longrightarrow> (\<exists>db key reply t c. cache st = Some db \<and> cache_key title content = Inr key
           \<and> cached_result (redis_get db key) = None
           \<and> completions env (length (ai_calls st)) title content = Inr reply
           \<and> fst (get_ai_processing env st title content) = Inr (Tuple2 t c)
           \<and> list_all encodable (t @ SEP @ c)
           \<and> cache (snd (get_ai_processing env st title content))
               = Some (redis_setex db key 604800 (t @ SEP @ c))))
   \<and> (\<forall>a b c. fst (get_ai_processing env st title content) = Inr (Tuple3 a b c)
     \<longrightarrow> cache (snd (get_ai_processing env st title content)) = cache st)
   \<and> (cache st = Some db \<and> cache_key title content = Inr key
      \<and> cached_result (redis_get db key) = None
      \<and> truthy (ALIYUN_API_KEY env)
      \<and> (\<forall>i<n. isl (completions env (length (ai_calls st) + i) title content))
     \<longrightarrow> repeat_request env st title content n
           = st\<lparr>ai_calls := ai_calls st @ replicate n (title, content)\<rparr>)"
  using transform_outcome[of st db title content key env reply st1]
    write_only_on_success[of env st title content]
    degraded_not_written[of env st title content]
    retry_after_failure[of st db title content key env n]
  by blast

text \<open>
  Witness for C8: on the empty cache, the answering service makes the request write
  \<open>T2|||<p>x</p>\<close> under the key with the time-to-live 604800; the service that times
  out twice is asked twice by two requests, which leave the cache empty, and the third
  request writes; the answer with a lone surrogate in its title gives the degraded result
  and leaves the cache empty.
\<close>

theorem cache_written_exactly_on_success_witness:
  "get_ai_processing ex_env_ok ex_st_empty (ustr ''T'') (ustr ''C'')
     = (Inr (Tuple2 (ustr ''T2'') (ustr ''<p>x</p>'')),
        \<lparr>cache = Some [ex_key \<mapsto> (ustr ''T2'' @ SEP @ ustr ''<p>x</p>'', 604800)],
         ai_calls = [(ustr ''T'', ustr ''C'')]\<rparr>)
   \<and> repeat_request ex_env_flaky ex_st_empty (ustr ''T'') (ustr ''C'') (Suc (Suc 0))
     = \<lparr>cache = Some Map.empty,
        ai_calls = [(ustr ''T'', ustr ''C''), (ustr ''T'', ustr ''C'')]\<rparr>
   \<and> cache (repeat_request ex_env_flaky ex_st_empty (ustr ''T'') (ustr ''C'') (Suc (Suc (Suc 0))))
     = Some [ex_key \<mapsto> (ustr ''T2'' @ SEP @ ustr ''<p>x</p>'', 604800)]
   \<and> get_ai_processing ex_env_surrogate ex_st_empty (ustr ''T'') (ustr ''C'')
     = (Inr (Tuple3 (ustr ''T'') AI_ERROR_MARKER
              (error_detail (str_encode_error (ustr ''T2'' @ [0xD800] @ SEP @ ustr ''x''))
                 (ustr ''C''))), ex_st_failed)"
proof -
  define st2 where "st2 = \<lparr>cache = Some Map.empty,
        ai_calls = [(ustr ''T'', ustr ''C''), (ustr ''T'', ustr ''C'')]\<rparr>"
  have c: "cache ex_st_empty = Some Map.empty" by (simp add: ex_st_empty_def)
  have k: "truthy (ALIYUN_API_KEY ex_env_flaky)"
    by (simp add: truthy_def ex_env_flaky_def ustr_def)
  have f: "\<forall>i<Suc (Suc 0). isl (completions ex_env_flaky (length (ai_calls ex_st_empty) + i)
             (ustr ''T'') (ustr ''C''))"
    by (simp add: ex_env_flaky_def ex_st_empty_def less_Suc_eq)
  have "repeat_request ex_env_flaky ex_st_empty (ustr ''T'') (ustr ''C'') (Suc (Suc 0))
      = ex_st_empty\<lparr>ai_calls := ai_calls ex_st_empty @ replicate (Suc (Suc 0)) (ustr ''T'', ustr ''C'')\<rparr>"
    using cache_written_exactly_on_success[of ex_st_empty Map.empty "ustr ''T''" "ustr ''C''"
        ex_key ex_env_flaky _ _ "Suc (Suc 0)"] c ex_key_eq ex_miss k f
    by blast
  then have two: "repeat_request ex_env_flaky ex_st_empty (ustr ''T'') (ustr ''C'') (Suc (Suc 0)) = st2"
    by (simp add: ex_st_empty_def st2_def)
  have c2: "cache st2 = Some Map.empty" by (simp add: st2_def)
  have q: "ai_request ex_env_flaky st2 (ustr ''T'') (ustr ''C'')
      = (Inr (ustr ''T2|||<p>x</p>''), st2\<lparr>ai_calls := ai_calls st2 @ [(ustr ''T'', ustr ''C'')]\<rparr>)"
    by (simp add: ai_request_def ex_env_flaky_def st2_def ustr_def)
  have cl: "clean_response (ustr ''T2|||<p>x</p>'') = ustr ''T2|||<p>x</p>''"
    by (simp add: clean_response_def ustr_def strip_def lstrip_def rstrip_def isspace_def)
  have sp: "split SEP (ustr ''T2|||<p>x</p>'') = [ustr ''T2'', ustr ''<p>x</p>'']"
    by (simp add: SEP_def ustr_def)
  have st: "strip (ustr ''T2'') = ustr ''T2''" "strip (ustr ''<p>x</p>'') = ustr ''<p>x</p>''"
    by (simp_all add: ustr_def strip_def lstrip_def rstrip_def isspace_def)
  have "cache (snd (ai_transform ex_env_flaky st2 Map.empty ex_key (ustr ''T'') (ustr ''C'')))
      = Some [ex_key \<mapsto> (ustr ''T2'' @ SEP @ ustr ''<p>x</p>'', 604800)]"
    unfolding ai_transform_Inr[OF q] cl sp
    by (simp add: st redis_setex_def Let_def ex_composite_ok)
  then have three: "cache (repeat_request ex_env_flaky ex_st_empty (ustr ''T'') (ustr ''C'')
        (Suc (Suc (Suc 0))))
      = Some [ex_key \<mapsto> (ustr ''T2'' @ SEP @ ustr ''<p>x</p>'', 604800)]"
    unfolding repeat_request.simps(2)[of _ _ _ _ "Suc (Suc 0)"] two
      transform_on_miss[OF c2 ex_key_eq ex_miss]
    by (simp add: case_prod_beta)
  have four: "get_ai_processing ex_env_surrogate ex_st_empty (ustr ''T'') (ustr ''C'')
     = (Inr (Tuple3 (ustr ''T'') AI_ERROR_MARKER
              (error_detail (str_encode_error (ustr ''T2'' @ [0xD800] @ SEP @ ustr ''x''))
                 (ustr ''C''))), ex_st_failed)"
    by (rule ex_surrogate_result)
  show ?thesis
    using two three four by (simp add: ex_ok_result ex_st_cached_def ex_composite st2_def)
qed

section \<open>The shape of the service's answer\<close>

text \<open>
  Claim C3, as amended. After a successful call, let the cleaned response be the response
  stripped of surrounding whitespace and with the code-fence markers removed. If it
  contains no delimiter, the title is the cleaned response, trimmed, and the content is
  the content that was passed in. If it contains the delimiter, the title and the content
  are its first two segments, each trimmed. This title and content are returned when
  their composite can be encoded as UTF-8, so that the cache write succeeds; when it
  cannot, the write raises and the call returns the handler's result instead.
\<close>

theorem response_shape:
  assumes "cache st = Some db" and "cache_key title content = Inr key"
    and "cached_result (redis_get db key) = None"
    and "ai_request env st title content = (Inr reply, st1)"
  shows "(\<not> contains SEP (clean_response reply) \<longrightarrow>
            fst (get_ai_processing env st title content) =
              (if list_all encodable (strip (clean_response reply) @ SEP @ content)
               then Inr (Tuple2 (strip (clean_response reply)) content)
               else Inr (Tuple3 title AI_ERROR_MARKER
                      (error_detail
                         (str_encode_error (strip (clean_response reply) @ SEP @ content))
                         content))))
       \<and> (contains SEP (clean_response reply) \<longrightarrow>
            (\<exists>p q rest. split SEP (clean_response reply) = p # q # rest
               \<and> trimmed (strip p) \<and> trimmed (strip q)
               \<and> fst (get_ai_processing env st title content) =
                   (if list_all encodable (strip p @ SEP @ strip q)
                    then Inr (Tuple2 (strip p) (strip q))
                    else Inr (Tuple3 title AI_ERROR_MARKER
                           (error_detail (str_encode_error (strip p @ SEP @ strip q))
                              content)))))"
proof -
  obtain t c where
    tc: "if contains SEP (clean_response reply)
         then (\<exists>p q rest. split SEP (clean_response reply) = p # q # rest
                 \<and> t = strip p \<and> c = strip q)
         else t = strip (clean_response reply) \<and> c = content"
    and g: "get_ai_processing env st title content =
             (if list_all encodable (t @ SEP @ c)
              then (Inr (Tuple2 t c),
                    st1\<lparr>cache := Some (redis_setex db key 604800 (t @ SEP @ c))\<rparr>)
              else (Inr (Tuple3 title AI_ERROR_MARKER
                           (error_detail (str_encode_error (t @ SEP @ c)) content)), st1))"
    using transform_outcome[OF assms] by blast
  have f: "fst (get_ai_processing env st title content) =
             (if list_all encodable (t @ SEP @ c) then Inr (Tuple2 t c)
              else Inr (Tuple3 title AI_ERROR_MARKER
                     (error_detail (str_encode_error (t @ SEP @ c)) content)))"
    by (simp add: g)
  show ?thesis
  proof (cases "contains SEP (clean_response reply)")
    case False
    then have "t = strip (clean_response reply)" "c = content" using tc by simp_all
    then show ?thesis using False f by simp
  next
    case True
    then obtain p q rest where "split SEP (clean_response reply) = p # q # rest"
      "t = strip p" "c = strip q" using tc by auto
    then show ?thesis using True f trimmed_strip by blast
  qed
qed

text \<open>
  Witness for C3: the service answers \<open>T2 ||| <p>x</p>\<close> inside a code fence and
  surrounded by blanks.
\<close>

theorem response_shape_witness:
  "cache ex_st_empty = Some Map.empty
   \<and> cache_key (ustr ''T'') (ustr ''C'') = Inr ex_key
   \<and> cached_result (redis_get Map.empty ex_key) = None
   \<and> ai_request ex_env_ok ex_st_empty (ustr ''T'') (ustr ''C'')
       = (Inr (ustr '' ```html T2 ||| <p>x</p> ``` ''),
          ex_st_empty\<lparr>ai_calls := [(ustr ''T'', ustr ''C'')]\<rparr>)
   \<and> contains SEP (clean_response (ustr '' ```html T2 ||| <p>x</p> ``` ''))
   \<and> list_all encodable (ustr ''T2'' @ SEP @ ustr ''<p>x</p>'')
   \<and> fst (get_ai_processing ex_env_ok ex_st_empty (ustr ''T'') (ustr ''C''))
       = Inr (Tuple2 (ustr ''T2'') (ustr ''<p>x</p>''))"
proof -
  have c: "cache ex_st_empty = Some Map.empty" by (simp add: ex_st_empty_def)
  have d: "contains SEP (clean_response (ustr '' ```html T2 ||| <p>x</p> ``` ''))"
    unfolding ex_clean by (simp add: SEP_def ustr_def)
  have e: "list_all encodable (ustr ''T2'' @ SEP @ ustr ''<p>x</p>'')"
    by (simp add: ex_composite_ok)
  obtain p q rest where
    s: "split SEP (clean_response (ustr '' ```html T2 ||| <p>x</p> ``` '')) = p # q # rest"
    and r: "fst (get_ai_processing ex_env_ok ex_st_empty (ustr ''T'') (ustr ''C''))
             = (if list_all encodable (strip p @ SEP @ strip q)
                then Inr (Tuple2 (strip p) (strip q))
                else Inr (Tuple3 (ustr ''T'') AI_ERROR_MARKER
                       (error_detail (str_encode_error (strip p @ SEP @ strip q)) (ustr ''C''))))"
    using response_shape[OF c ex_key_eq ex_miss ex_request_ok] d by blast
  have "p = ustr '' T2 ''" "q = ustr '' <p>x</p> ''"
    using s unfolding ex_clean ex_split by simp_all
  then have "fst (get_ai_processing ex_env_ok ex_st_empty (ustr ''T'') (ustr ''C''))
       = Inr (Tuple2 (ustr ''T2'') (ustr ''<p>x</p>''))"
    using r e by (simp add: ex_strip)
  then show ?thesis using c ex_key_eq ex_miss ex_request_ok d e by simp
qed

text \<open>
  Counterexample to C3 as stated: the service answers \<open>hello\<close>, which has no
  delimiter, to the title \<open>T\<close> with the content \<open>C\<close>. The call returns the title
  \<open>hello\<close> with the content \<open>C\<close>, not the title \<open>T\<close> with the content \<open>hello\<close>.
\<close>

theorem response_shape_counterexample:
  "\<not> contains SEP (ustr ''hello'')
   \<and> fst (get_ai_processing ex_env_plain ex_st_empty (ustr ''T'') (ustr ''C''))
       = Inr (Tuple2 (ustr ''hello'') (ustr ''C''))
   \<and> fst (get_ai_processing ex_env_plain ex_st_empty (ustr ''T'') (ustr ''C''))
       \<noteq> Inr (Tuple2 (ustr ''T'') (ustr ''hello''))"
proof -
  have c: "cache ex_st_empty = Some Map.empty" by (simp add: ex_st_empty_def)
  have n: "\<not> contains SEP (ustr ''hello'')" by (simp add: SEP_def ustr_def)
  have cl: "clean_response (ustr ''hello'') = ustr ''hello''"
    by (simp add: clean_response_def ustr_def strip_def lstrip_def rstrip_def isspace_def)
  have enc: "list_all encodable (ustr ''hello'' @ SEP @ ustr ''C'')"
    by (simp add: SEP_def ustr_def encodable_def)
  have "fst (ai_transform ex_env_plain ex_st_empty Map.empty ex_key (ustr ''T'') (ustr ''C''))
      = Tuple2 (ustr ''hello'') (ustr ''C'')"
    unfolding ai_transform_Inr[OF ex_request_plain] cl split_no_sep[OF n]
    using enc by (simp add: ex_strip Let_def)
  then have "fst (get_ai_processing ex_env_plain ex_st_empty (ustr ''T'') (ustr ''C''))
       = Inr (Tuple2 (ustr ''hello'') (ustr ''C''))"
    unfolding transform_on_miss[OF c ex_key_eq ex_miss] by (simp add: case_prod_beta)
  then show ?thesis using n by (simp add: ustr_def)
qed

section \<open>The dispatcher: the loop and the sort\<close>

lemma as_completed_loop_eq: "as_completed_loop futures acc = acc @ results_of futures"
  by (induction futures acc rule: as_completed_loop.induct) simp_all

lemma reassemble_eq: "reassemble futures = sort_key res_index (results_of futures)"
  by (simp add: reassemble_def as_completed_loop_eq)

lemma results_of_filter: "results_of futures = map projr (filter (\<lambda>f. \<not> isl f) futures)"
  by (induction futures rule: results_of.induct) simp_all

lemma length_results_of: "length (results_of futures) \<le> length futures"
  by (simp add: results_of_filter)

lemma results_of_map_mset:
  assumes "mset xs = mset ys"
  shows "mset (results_of (map f xs)) = mset (results_of (map f ys))"
proof -
  have "mset (results_of (map f zs))
      = image_mset projr (filter_mset (\<lambda>f. \<not> isl f) (image_mset f (mset zs)))" for zs
    by (simp add: results_of_filter)
  then show ?thesis using assms by simp
qed

lemma results_of_indices:
  assumes "\<forall>i<n. \<forall>d. outcome i = Inr d \<longrightarrow> res_index d = i"
  shows "set xs \<subseteq> {0..<n} \<Longrightarrow>
     map res_index (results_of (map outcome xs)) = filter (\<lambda>i. \<not> isl (outcome i)) xs"
proof (induction xs)
  case Nil
  then show ?case by simp
next
  case (Cons a xs)
  then have an: "a < n" by simp
  show ?case
  proof (cases "outcome a")
    case (Inl e)
    then show ?thesis using Cons by simp
  next
    case (Inr d)
    then have "res_index d = a" using assms an by blast
    then show ?thesis using Cons Inr by simp
  qed
qed

lemma perm_upt:
  assumes "mset order = mset [0..<n]"
  shows "set order = {0..<n}" and "distinct order" and "length order = n"
proof -
  show "set order = {0..<n}" using assms by (metis mset_eq_setD set_upt)
  show "distinct order" using assms by (metis distinct_upt mset_eq_imp_distinct_iff)
  show "length order = n" using assms by (metis mset_eq_length length_upt diff_zero)
qed

lemma process_single_entry_result:
  "process_single_entry env st (i, e) = (Inr d, st') \<Longrightarrow>
     res_index d = i \<and> res_link d = get_link e \<and> res_id d = get_id e"
  by (auto simp: process_single_entry_def split: prod.splits sum.splits ai_return.splits)

lemma run_tasks_belongs: "list_all2 belongs tasks (fst (run_tasks env st tasks))"
proof (induction tasks arbitrary: st)
  case Nil
  then show ?case by simp
next
  case (Cons task tasks)
  obtain out st' where p: "process_single_entry env st task = (out, st')" by force
  obtain outs st'' where r: "run_tasks env st' tasks = (outs, st'')" by force
  have "belongs task out"
    using process_single_entry_result[of env st "fst task" "snd task" _ st'] p
    by (auto simp: belongs_def)
  moreover have "list_all2 belongs tasks outs" using Cons[of st'] r by simp
  ultimately show ?case using p r by simp
qed

lemma belongs_results:
  "list_all2 belongs tasks outs \<Longrightarrow> d \<in> set (results_of outs) \<Longrightarrow>
     \<exists>task \<in> set tasks. res_index d = fst task \<and> res_link d = get_link (snd task)
        \<and> res_id d = get_id (snd task)"
proof (induction tasks outs rule: list_all2_induct)
  case Nil
  then show ?case by simp
next
  case (Cons task tasks out outs)
  then show ?case by (cases out) (auto simp: belongs_def)
qed

lemma belongs_distinct:
  "list_all2 belongs tasks outs \<Longrightarrow> distinct (map fst tasks) \<Longrightarrow>
     distinct (map res_index (results_of outs))
     \<and> res_index ` set (results_of outs) \<subseteq> fst ` set tasks"
proof (induction tasks outs rule: list_all2_induct)
  case Nil
  then show ?case by simp
next
  case (Cons task tasks out outs)
  then show ?case by (cases out) (auto simp: belongs_def)
qed

lemma ex_task1:
  "process_single_entry ex_env_ok ex_st_empty (Suc 0, ex_entry) = (Inr (ex_result (Suc 0)), ex_st_cached)"
  by (simp add: process_single_entry_def ex_entry_fields ex_ok_result ex_result_def)

lemma ex_task0:
  "process_single_entry ex_env_ok ex_st_cached (0, ex_entry) = (Inr (ex_result 0), ex_st_cached)"
  by (simp add: process_single_entry_def ex_entry_fields ex_hit_result ex_result_def)

lemma ex_feed:
  "proxy_feed ex_env_ok ex_st_empty [ex_entry, ex_entry] [Suc 0, 0]
     = ([ex_result 0, ex_result (Suc 0)], ex_st_cached)"
proof -
  have i: "res_index (ex_result 0) = 0" "res_index (ex_result (Suc 0)) = Suc 0"
    by (simp_all add: ex_result_def)
  have "run_tasks ex_env_ok ex_st_empty [(Suc 0, ex_entry), (0, ex_entry)]
      = ([Inr (ex_result (Suc 0)), Inr (ex_result 0)], ex_st_cached)"
    by (simp add: ex_task1 ex_task0)
  then show ?thesis
    by (simp add: proxy_feed_def enumerate_eq_zip reassemble_eq i)
qed

text \<open>
  Let every task complete once, in any order, each with a result that carries its index
  or with an exception of any kind. The loop and the sort return the results of the tasks
  that did not raise, in the order of the input.
\<close>

lemma reassemble_in_input_order:
  assumes perm: "mset order = mset [0..<n]"
    and idx: "\<forall>i<n. \<forall>d. outcome i = Inr d \<longrightarrow> res_index d = i"
  shows "reassemble (map outcome order) = results_of (map outcome [0..<n])"
proof -
  note p = perm_upt[OF perm]
  have m: "mset (results_of (map outcome order)) = mset (results_of (map outcome [0..<n]))"
    using perm by (rule results_of_map_mset)
  have keys: "map res_index (results_of (map outcome order)) = filter (\<lambda>i. \<not> isl (outcome i)) order"
    using results_of_indices[OF idx, of order] p(1) by simp
  have "distinct (map res_index (results_of (map outcome order)))"
    unfolding keys using p(2) by simp
  then have inj: "inj_on res_index (set (results_of (map outcome order)))"
    by (simp add: distinct_map)
  have "map res_index (results_of (map outcome [0..<n])) = filter (\<lambda>i. \<not> isl (outcome i)) [0..<n]"
    using results_of_indices[OF idx, of "[0..<n]"] by simp
  then have srt: "sorted (map res_index (results_of (map outcome [0..<n])))"
    by (simp add: sorted_wrt_filter)
  show ?thesis
    unfolding reassemble_eq using sort_key_inj_key_eq[OF m inj srt] .
qed

lemma results_of_all_raise: "results_of (map (\<lambda>t. Inl e) tasks) = []"
  by (induction tasks) simp_all

lemma run_tasks_no_cache:
  "cache st = None \<Longrightarrow>
     run_tasks env st tasks = (map (\<lambda>t. Inl (ValueError UNPACK_MSG)) tasks, st)"
proof (induction tasks)
  case Nil
  then show ?case by simp
next
  case (Cons task tasks)
  have "process_single_entry env st task = (Inl (ValueError UNPACK_MSG), st)"
    using Cons.prems by (cases task) (simp add: process_single_entry_def get_ai_processing_def)
  then show ?case using Cons by simp
qed

lemma task_outcomes_of_run:
  assumes "distinct order" and "length futures = length order"
  shows "map (\<lambda>i. the (map_of (zip order futures) i)) order = futures"
proof (rule nth_equalityI)
  show "length (map (\<lambda>i. the (map_of (zip order futures) i)) order) = length futures"
    using assms by simp
next
  fix j assume "j < length (map (\<lambda>i. the (map_of (zip order futures) i)) order)"
  then have j: "j < length futures" using assms by simp
  have "map_of (zip order futures) (order ! j) = Some (futures ! j)"
    using assms j by (intro map_of_zip_nth) simp_all
  then show "map (\<lambda>i. the (map_of (zip order futures) i)) order ! j = futures ! j"
    using j assms by simp
qed

section \<open>The degraded results\<close>

text \<open>
  Claim C1, what the code does. When the lookup misses and the call of the service
  raises, \<open>get_ai_processing\<close> returns three values: the title, the error marker, and
  the error detail followed by the content. \<open>process_single_entry\<close> unpacks two, so it
  raises \<open>ValueError\<close>.
\<close>

theorem service_failure_returns_triple:
  assumes "cache st = Some db"
    and "cache_key (get_title entry) (get_raw_content entry) = Inr key"
    and "cached_result (redis_get db key) = None"
    and "ai_request env st (get_title entry) (get_raw_content entry) = (Inl detail, st1)"
  shows "get_ai_processing env st (get_title entry) (get_raw_content entry) =
           (Inr (Tuple3 (get_title entry) AI_ERROR_MARKER
                   (error_detail detail (get_raw_content entry))), st1)
       \<and> process_single_entry env st (index, entry) = (Inl (ValueError UNPACK_MSG), st1)"
proof -
  have "get_ai_processing env st (get_title entry) (get_raw_content entry) =
           (Inr (Tuple3 (get_title entry) AI_ERROR_MARKER
                   (error_detail detail (get_raw_content entry))), st1)"
    using assms by (simp add: transform_on_miss ai_transform_Inl)
  then show ?thesis by (simp add: process_single_entry_def)
qed

text \<open>
  Witness for C1: the service times out on the example entry; the task raises and the
  feed of that one entry comes out empty.
\<close>

theorem service_failure_returns_triple_witness:
  "cache ex_st_empty = Some Map.empty
   \<and> cache_key (get_title ex_entry) (get_raw_content ex_entry) = Inr ex_key
   \<and> cached_result (redis_get Map.empty ex_key) = None
   \<and> ai_request ex_env_down ex_st_empty (get_title ex_entry) (get_raw_content ex_entry)
       = (Inl (ustr ''Request timed out.''), ex_st_failed)
   \<and> get_ai_processing ex_env_down ex_st_empty (ustr ''T'') (ustr ''C'')
       = (Inr (Tuple3 (ustr ''T'') AI_ERROR_MARKER
                (error_detail (ustr ''Request timed out.'') (ustr ''C''))), ex_st_failed)
   \<and> process_single_entry ex_env_down ex_st_empty (0, ex_entry)
       = (Inl (ValueError UNPACK_MSG), ex_st_failed)
   \<and> proxy_feed ex_env_down ex_st_empty [ex_entry] [0] = ([], ex_st_failed)"
proof -
  have c: "cache ex_st_empty = Some Map.empty" by (simp add: ex_st_empty_def)
  have k: "cache_key (get_title ex_entry) (get_raw_content ex_entry) = Inr ex_key"
    by (simp add: ex_entry_fields ex_key_eq)
  have q: "ai_request ex_env_down ex_st_empty (get_title ex_entry) (get_raw_content ex_entry)
       = (Inl (ustr ''Request timed out.''), ex_st_failed)"
    by (simp add: ex_entry_fields ex_request_down)
  note t = service_failure_returns_triple[OF c k ex_miss q, of 0]
  then have p: "process_single_entry ex_env_down ex_st_empty (0, ex_entry)
       = (Inl (ValueError UNPACK_MSG), ex_st_failed)" by blast
  have "proxy_feed ex_env_down ex_st_empty [ex_entry] [0] = ([], ex_st_failed)"
    by (simp add: proxy_feed_def reassemble_def enumerate_eq_zip p)
  then show ?thesis using t c k q ex_miss by (simp add: ex_entry_fields)
qed

text \<open>
  Claim C2, what the code does. When the cache was unreachable at start-up,
  \<open>get_ai_processing\<close> returns at once, by the guard of line 41, three values: the
  title, a message and the content. The state is unchanged: the cache is not used and no
  request is sent to the service. \<open>process_single_entry\<close> unpacks two values, so every
  task raises \<open>ValueError\<close>, every entry is dropped, and the feed comes out empty.
\<close>

theorem no_cache_returns_triple:
  assumes "cache st = None"
  shows "get_ai_processing env st title content = (Inr (Tuple3 title NO_CACHE_MSG content), st)
       \<and> process_single_entry env st (index, entry) = (Inl (ValueError UNPACK_MSG), st)
       \<and> proxy_feed env st entries order = ([], st)"
proof -
  have g: "get_ai_processing env st title content = (Inr (Tuple3 title NO_CACHE_MSG content), st)"
    for title content
    using assms by (simp add: get_ai_processing_def)
  have p: "process_single_entry env st (index, entry) = (Inl (ValueError UNPACK_MSG), st)"
    by (simp add: process_single_entry_def g)
  have "proxy_feed env st entries order = ([], st)"
    by (simp add: proxy_feed_def Let_def run_tasks_no_cache[OF assms] reassemble_eq
        results_of_all_raise comp_def)
  then show ?thesis using g p by simp
qed

text \<open>
  Witness for C2: without a cache and with a service that would answer, the call for
  the example entry sends no request (the log of requests stays empty) and returns three
  values, the task raises, and the feed of that one entry comes out empty.
\<close>

theorem no_cache_returns_triple_witness:
  "cache ex_st_nocache = None
   \<and> ai_calls ex_st_nocache = []
   \<and> get_ai_processing ex_env_ok ex_st_nocache (ustr ''T'') (ustr ''C'')
       = (Inr (Tuple3 (ustr ''T'') NO_CACHE_MSG (ustr ''C'')), ex_st_nocache)
   \<and> process_single_entry ex_env_ok ex_st_nocache (0, ex_entry)
       = (Inl (ValueError UNPACK_MSG), ex_st_nocache)
   \<and> proxy_feed ex_env_ok ex_st_nocache [ex_entry] [0] = ([], ex_st_nocache)"
proof -
  have c: "cache ex_st_nocache = None" by (simp add: ex_st_nocache_def)
  have a: "ai_calls ex_st_nocache = []" by (simp add: ex_st_nocache_def)
  show ?thesis
    using c a no_cache_returns_triple[OF c, of ex_env_ok "ustr ''T''" "ustr ''C''" 0 ex_entry
        "[ex_entry]" "[0]"]
    by simp
qed

text \<open>
  Claim C4. Whatever the order in which the tasks complete, the dispatcher returns at most
  as many results as there are entries, in strictly ascending order of the index given at
  dispatch, and the result with index \<open>i\<close> is that of the \<open>i\<close>-th entry (it carries
  that entry's link and identifier).
\<close>

theorem dispatcher_restores_input_order:
  assumes perm: "mset order = mset [0..<length entries]"
  shows "length (fst (proxy_feed env st entries order)) \<le> length entries
       \<and> sorted_wrt (<) (map res_index (fst (proxy_feed env st entries order)))
       \<and> (\<forall>r \<in> set (fst (proxy_feed env st entries order)).
            res_index r < length entries
          \<and> res_link r = get_link (entries ! res_index r)
          \<and> res_id r = get_id (entries ! res_index r))"
proof -
  define tasks where "tasks = map (\<lambda>k. enumerate 0 entries ! k) order"
  define futures where "futures = fst (run_tasks env st tasks)"
  have out: "fst (proxy_feed env st entries order) = sort_key res_index (results_of futures)"
    by (simp add: proxy_feed_def Let_def tasks_def futures_def reassemble_eq split: prod.splits)
  note p = perm_upt[OF perm]
  have tk: "tasks = map (\<lambda>k. (k, entries ! k)) order"
    unfolding tasks_def using p(1) by (auto simp: nth_enumerate_eq)
  have la: "list_all2 belongs tasks futures"
    unfolding futures_def by (rule run_tasks_belongs)
  have "length futures = length tasks" using la by (simp add: list_all2_lengthD)
  then have len: "length (results_of futures) \<le> length entries"
    using length_results_of[of futures] p(3) by (simp add: tk)
  have "map fst tasks = order" by (simp add: tk comp_def)
  then have d: "distinct (map res_index (results_of futures))"
    using belongs_distinct[OF la] p(2) by simp
  have "sorted (map res_index (sort_key res_index (results_of futures)))" by simp
  moreover have "distinct (map res_index (sort_key res_index (results_of futures)))"
    using d by (metis distinct_map distinct_sort set_sort)
  ultimately have s: "sorted_wrt (<) (map res_index (sort_key res_index (results_of futures)))"
    by (simp add: strict_sorted_iff)
  have e: "\<forall>r \<in> set (sort_key res_index (results_of futures)).
            res_index r < length entries
          \<and> res_link r = get_link (entries ! res_index r)
          \<and> res_id r = get_id (entries ! res_index r)"
  proof
    fix r assume "r \<in> set (sort_key res_index (results_of futures))"
    then have "r \<in> set (results_of futures)" by simp
    then obtain task where t: "task \<in> set tasks" "res_index r = fst task"
      "res_link r = get_link (snd task)" "res_id r = get_id (snd task)"
      using belongs_results[OF la] by blast
    then obtain k where "k \<in> set order" "task = (k, entries ! k)" using tk by auto
    then show "res_index r < length entries
          \<and> res_link r = get_link (entries ! res_index r)
          \<and> res_id r = get_id (entries ! res_index r)"
      using t p(1) by auto
  qed
  show ?thesis unfolding out using len s e by simp
qed

text \<open>
  Witness for C4: two entries whose tasks complete in the order 1, 0. The task of index 1
  asks the service and fills the cache, the task of index 0 is served from the cache, and
  the results come out in the order 0, 1.
\<close>

theorem dispatcher_restores_input_order_witness:
  "mset [Suc 0, 0] = mset [0..<length [ex_entry, ex_entry]]
   \<and> fst (proxy_feed ex_env_ok ex_st_empty [ex_entry, ex_entry] [Suc 0, 0])
       = [ex_result 0, ex_result (Suc 0)]
   \<and> length (fst (proxy_feed ex_env_ok ex_st_empty [ex_entry, ex_entry] [Suc 0, 0])) \<le> 2
   \<and> sorted_wrt (<) (map res_index (fst (proxy_feed ex_env_ok ex_st_empty [ex_entry, ex_entry] [Suc 0, 0])))
   \<and> res_link (ex_result (Suc 0)) = get_link ([ex_entry, ex_entry] ! res_index (ex_result (Suc 0)))"
proof -
  have h: "mset [Suc 0, 0] = mset [0..<length [ex_entry, ex_entry]]"
    by (simp add: upt_rec)
  note t = dispatcher_restores_input_order[OF h, of ex_env_ok ex_st_empty]
  have m: "ex_result (Suc 0) \<in> set (fst (proxy_feed ex_env_ok ex_st_empty [ex_entry, ex_entry] [Suc 0, 0]))"
    by (simp add: ex_feed)
  have "res_link (ex_result (Suc 0)) = get_link ([ex_entry, ex_entry] ! res_index (ex_result (Suc 0)))"
    using t m by blast
  moreover have "length (fst (proxy_feed ex_env_ok ex_st_empty [ex_entry, ex_entry] [Suc 0, 0])) \<le> 2"
    using t by simp
  moreover have "sorted_wrt (<) (map res_index (fst (proxy_feed ex_env_ok ex_st_empty [ex_entry, ex_entry] [Suc 0, 0])))"
    using t by blast
  ultimately show ?thesis using h by (simp add: ex_feed)
qed

lemma ex_bad_raises:
  "process_single_entry env ex_st_cached (Suc 0, ex_entry_bad)
     = (Inl (UnicodeEncodeError (str_encode_error ([0x54, 0xD800] @ take 200 (ustr ''D'')))),
        ex_st_cached)"
proof -
  have t: "get_title ex_entry_bad = [0x54, 0xD800]" "get_raw_content ex_entry_bad = ustr ''D''"
    by (simp_all add: get_title_def get_raw_content_def ex_entry_bad_def truthy_def ustr_def)
  have "\<not> list_all encodable ([0x54, 0xD800] @ take 200 (ustr ''D''))"
    by (simp add: encodable_def)
  then have "cache_key [0x54, 0xD800] (ustr ''D'')
      = Inl (UnicodeEncodeError (str_encode_error ([0x54, 0xD800] @ take 200 (ustr ''D''))))"
    by (rule cache_key_raises)
  then show ?thesis
    by (simp add: process_single_entry_def get_ai_processing_def t ex_st_cached_def)
qed

lemma ex_task2:
  "process_single_entry ex_env_ok ex_st_empty (Suc (Suc 0), ex_entry)
     = (Inr (ex_result (Suc (Suc 0))), ex_st_cached)"
  by (simp add: process_single_entry_def ex_entry_fields ex_ok_result ex_result_def)

lemma ex_run3:
  "run_tasks ex_env_ok ex_st_empty
      (map (\<lambda>k. enumerate 0 [ex_entry, ex_entry_bad, ex_entry] ! k) [Suc (Suc 0), Suc 0, 0])
     = ([Inr (ex_result (Suc (Suc 0))),
         Inl (UnicodeEncodeError (str_encode_error ([0x54, 0xD800] @ take 200 (ustr ''D'')))),
         Inr (ex_result 0)], ex_st_cached)"
  by (simp add: enumerate_eq_zip upt_rec ex_task2 ex_bad_raises ex_task0)

text \<open>
  Claim C5. Whatever the order in which the tasks complete, the dispatcher returns the
  results of the tasks that did not raise, in the order of the input: the task of an
  entry raises exactly when the entry's index is missing from the output, the results of
  all other entries are there, and no exception leaves the dispatcher, which returns a
  list whatever the tasks do.
\<close>

theorem failed_tasks_dropped:
  assumes perm: "mset order = mset [0..<length entries]"
  shows "fst (proxy_feed env st entries order)
           = results_of (map (task_outcome env st entries order) [0..<length entries])
       \<and> map res_index (fst (proxy_feed env st entries order))
           = filter (\<lambda>i. \<not> isl (task_outcome env st entries order i)) [0..<length entries]"
proof -
  define tasks where "tasks = map (\<lambda>k. enumerate 0 entries ! k) order"
  define futures where "futures = fst (run_tasks env st tasks)"
  have out: "fst (proxy_feed env st entries order) = reassemble futures"
    by (simp add: proxy_feed_def Let_def tasks_def futures_def split: prod.splits)
  note p = perm_upt[OF perm]
  have tk: "tasks = map (\<lambda>k. (k, entries ! k)) order"
    unfolding tasks_def using p(1) by (auto simp: nth_enumerate_eq)
  have la: "list_all2 belongs tasks futures"
    unfolding futures_def by (rule run_tasks_belongs)
  then have len: "length futures = length order"
    using list_all2_lengthD[OF la] by (simp add: tk)
  have to: "task_outcome env st entries order = (\<lambda>i. the (map_of (zip order futures) i))"
    by (rule ext) (simp add: task_outcome_def futures_def tasks_def)
  have mo: "map (task_outcome env st entries order) order = futures"
    unfolding to using p(2) len by (rule task_outcomes_of_run)
  have idx: "\<forall>i<length entries. \<forall>d. task_outcome env st entries order i = Inr d
               \<longrightarrow> res_index d = i"
  proof (intro allI impI)
    fix i d assume i: "i < length entries" and d: "task_outcome env st entries order i = Inr d"
    have "i \<in> set order" using i p(1) by simp
    then obtain j where j: "j < length order" "order ! j = i" by (auto simp: in_set_conv_nth)
    have "futures ! j = task_outcome env st entries order i"
      using mo j by (metis nth_map)
    moreover have "belongs (tasks ! j) (futures ! j)"
      using la j len by (simp add: list_all2_nthD2)
    moreover have "fst (tasks ! j) = i" using j by (simp add: tk)
    ultimately show "res_index d = i" using d by (simp add: belongs_def)
  qed
  have r: "reassemble (map (task_outcome env st entries order) order)
        = results_of (map (task_outcome env st entries order) [0..<length entries])"
    using perm idx by (rule reassemble_in_input_order)
  have "map res_index (results_of (map (task_outcome env st entries order) [0..<length entries]))
      = filter (\<lambda>i. \<not> isl (task_outcome env st entries order i)) [0..<length entries]"
    using results_of_indices[OF idx, of "[0..<length entries]"] by simp
  then show ?thesis unfolding out using r mo by simp
qed

text \<open>
  Witness for C5: three entries whose tasks complete in the order 2, 1, 0. The title of
  the second entry has a lone surrogate, so its task raises \<open>UnicodeEncodeError\<close>
  when the fingerprint is computed; the results of the entries 0 and 2 are returned, in
  that order.
\<close>

theorem failed_tasks_dropped_witness:
  "mset [Suc (Suc 0), Suc 0, 0] = mset [0..<length [ex_entry, ex_entry_bad, ex_entry]]
   \<and> task_outcome ex_env_ok ex_st_empty [ex_entry, ex_entry_bad, ex_entry]
        [Suc (Suc 0), Suc 0, 0] (Suc 0)
       = Inl (UnicodeEncodeError (str_encode_error ([0x54, 0xD800] @ take 200 (ustr ''D''))))
   \<and> fst (proxy_feed ex_env_ok ex_st_empty [ex_entry, ex_entry_bad, ex_entry]
            [Suc (Suc 0), Suc 0, 0])
       = [ex_result 0, ex_result (Suc (Suc 0))]"
proof -
  have u: "[0..<length [ex_entry, ex_entry_bad, ex_entry]] = [0, Suc 0, Suc (Suc 0)]"
    by (simp add: upt_rec)
  have h: "mset [Suc (Suc 0), Suc 0, 0] = mset [0..<length [ex_entry, ex_entry_bad, ex_entry]]"
    unfolding u by simp
  have o: "task_outcome ex_env_ok ex_st_empty [ex_entry, ex_entry_bad, ex_entry]
        [Suc (Suc 0), Suc 0, 0] 0 = Inr (ex_result 0)"
    "task_outcome ex_env_ok ex_st_empty [ex_entry, ex_entry_bad, ex_entry]
        [Suc (Suc 0), Suc 0, 0] (Suc 0)
       = Inl (UnicodeEncodeError (str_encode_error ([0x54, 0xD800] @ take 200 (ustr ''D''))))"
    "task_outcome ex_env_ok ex_st_empty [ex_entry, ex_entry_bad, ex_entry]
        [Suc (Suc 0), Suc 0, 0] (Suc (Suc 0)) = Inr (ex_result (Suc (Suc 0)))"
    unfolding task_outcome_def ex_run3 by simp_all
  have "fst (proxy_feed ex_env_ok ex_st_empty [ex_entry, ex_entry_bad, ex_entry]
            [Suc (Suc 0), Suc 0, 0])
       = results_of (map (task_outcome ex_env_ok ex_st_empty [ex_entry, ex_entry_bad, ex_entry]
            [Suc (Suc 0), Suc 0, 0]) [0..<length [ex_entry, ex_entry_bad, ex_entry]])"
    using failed_tasks_dropped[OF h] by blast
  then have "fst (proxy_feed ex_env_ok ex_st_empty [ex_entry, ex_entry_bad, ex_entry]
            [Suc (Suc 0), Suc 0, 0])
       = [ex_result 0, ex_result (Suc (Suc 0))]"
    unfolding u by (simp add: o)
  then show ?thesis using h o(2) by simp
qed

end
